theory Spec2Isabelle
  imports Complex_Main "HOL-Library.AList"
begin

section \<open>JavaScript strings\<close>

text \<open>
  A JavaScript string is a sequence of UTF-16 code units. A code unit is modelled as a
  natural number (the values below 65536 are the code units), so that the characters
  beyond ASCII that the source matches on (\<open>U+00B0\<close>, \<open>U+20AC\<close>, the accented
  letters) are single elements, as they are for \<open>includes\<close>, \<open>split\<close> and the
  regular expressions of the source.
\<close>

type_synonym jsstring = "nat list"

text \<open>An ASCII literal of the source, as code units.\<close>

definition a :: "string \<Rightarrow> jsstring" where
  "a s = map of_char s"

text \<open>\<open>!x\<close> for a value that is a string, \<open>null\<close> or \<open>undefined\<close>: the empty
  string is falsy as well.\<close>

definition falsy :: "jsstring option \<Rightarrow> bool" where
  "falsy v = (case v of None \<Rightarrow> True | Some s \<Rightarrow> s = [])"

text \<open>\<open>s.split(c)\<close> for a separator of one code unit: the pieces between the
  occurrences of \<open>c\<close>; the empty string gives one empty piece.\<close>

fun split :: "nat \<Rightarrow> jsstring \<Rightarrow> jsstring list" where
  "split c [] = [[]]"
| "split c (x # xs) =
     (if x = c then [] # split c xs
      else (case split c xs of p # ps \<Rightarrow> (x # p) # ps | [] \<Rightarrow> [[x]]))"

text \<open>Array destructuring \<open>const [u, v] = xs\<close>: a missing element is \<open>undefined\<close>.\<close>

definition elem_at :: "'a list \<Rightarrow> nat \<Rightarrow> 'a option" where
  "elem_at xs i = (if i < length xs then Some (xs ! i) else None)"

subsection \<open>Character classes\<close>

text \<open>\<open>\d\<close> (without the \<open>u\<close> flag: the ASCII digits).\<close>

definition is_digit :: "nat \<Rightarrow> bool" where
  "is_digit c = (48 \<le> c \<and> c \<le> 57)"

text \<open>\<open>\w\<close>, which decides \<open>\b\<close>: \<open>[A-Za-z0-9_]\<close>.\<close>

definition is_word :: "nat \<Rightarrow> bool" where
  "is_word c = ((97 \<le> c \<and> c \<le> 122) \<or> (65 \<le> c \<and> c \<le> 90) \<or> is_digit c \<or> c = 95)"

text \<open>
  \<open>\s\<close>, and the units that \<open>trim\<close> strips: the white space and line
  terminators of ECMAScript (TAB, LF, VT, FF, CR, SP, NBSP, U+1680, U+2000 to U+200A,
  U+2028, U+2029, U+202F, U+205F, U+3000, U+FEFF).
\<close>

definition is_space :: "nat \<Rightarrow> bool" where
  "is_space c =
     (c \<in> set [9, 10, 11, 12, 13, 32, 160, 5760, 8232, 8233, 8239, 8287, 12288, 65279]
      \<or> (8192 \<le> c \<and> c \<le> 8202))"

subsection \<open>String methods\<close>

text \<open>
  \<open>toLowerCase\<close>, unit by unit: the ASCII and Latin-1 capitals, U+0130 (which
  lowers to \<open>i\<close> and U+0307), the Kelvin sign U+212A (which lowers to \<open>k\<close>) and the
  Angstrom sign U+212B. These are all the units whose lower case contains a unit that
  a pattern of the source mentions. A capital of another script is left as it is:
  there \<open>msg\<close> differs from the program's, in units that no test of the source
  distinguishes (none is a digit, a word character, white space or part of a keyword).
\<close>

definition lower_unit :: "nat \<Rightarrow> jsstring" where
  "lower_unit c =
     (if 65 \<le> c \<and> c \<le> 90 then [c + 32]
      else if 192 \<le> c \<and> c \<le> 222 \<and> c \<noteq> 215 then [c + 32]
      else if c = 304 then [105, 775]
      else if c = 8490 then [107]
      else if c = 8491 then [229]
      else [c])"

definition toLowerCase :: "jsstring \<Rightarrow> jsstring" where
  "toLowerCase s = concat (map lower_unit s)"

definition trim :: "jsstring \<Rightarrow> jsstring" where
  "trim s = rev (dropWhile is_space (rev (dropWhile is_space s)))"

fun starts_with :: "jsstring \<Rightarrow> jsstring \<Rightarrow> bool" where
  "starts_with s [] = True"
| "starts_with [] (y # p) = False"
| "starts_with (x # s) (y # p) = (x = y \<and> starts_with s p)"

text \<open>\<open>s.includes(p)\<close>.\<close>

fun js_includes :: "jsstring \<Rightarrow> jsstring \<Rightarrow> bool" where
  "js_includes [] p = (p = [])"
| "js_includes (x # s) p = (starts_with (x # s) p \<or> js_includes s p)"

text \<open>
  \<open>s.replace(p, r)\<close> for a string pattern \<open>p\<close> and a replacement without
  \<open>$\<close>: the first occurrence of \<open>p\<close> is replaced, and \<open>s\<close> is returned as it is
  when there is none.
\<close>

fun replace :: "jsstring \<Rightarrow> jsstring \<Rightarrow> jsstring \<Rightarrow> jsstring" where
  "replace [] p r = (if p = [] then r else [])"
| "replace (x # s) p r =
     (if starts_with (x # s) p then r @ drop (length p) (x # s) else x # replace s p r)"

definition slice :: "jsstring \<Rightarrow> nat \<Rightarrow> nat \<Rightarrow> jsstring" where
  "slice s i j = take (j - i) (drop i s)"

text \<open>\<open>xs.join(sep)\<close>.\<close>

fun join :: "jsstring \<Rightarrow> jsstring list \<Rightarrow> jsstring" where
  "join sep [] = []"
| "join sep [x] = x"
| "join sep (x # y # ys) = x @ sep @ join sep (y # ys)"

section \<open>Regular expressions\<close>

text \<open>
  The regular expressions of the source use literals, the classes \<open>\d\<close>, \<open>\s\<close>,
  \<open>[\s\S]\<close> and \<open>[.,]\<close>, the quantifiers \<open>*\<close>, \<open>*?\<close>, \<open>+\<close> on a class, \<open>?\<close>,
  alternation, \<open>\b\<close> and one capturing group. They are values of the datatype
  \<open>re\<close>, and \<open>re_match\<close> is the backtracking matcher of ECMAScript on them: it
  returns the first way, in the order a JavaScript engine tries them, in which the
  pending expressions \<open>k\<close> match from index \<open>i\<close>; the result is the end index and
  the capture.
\<close>

datatype cls = Digit | Space | AnyUnit | OneOf "nat list"

fun in_cls :: "cls \<Rightarrow> nat \<Rightarrow> bool" where
  "in_cls Digit c = is_digit c"
| "in_cls Space c = is_space c"
| "in_cls AnyUnit c = True"
| "in_cls (OneOf cs) c = (c \<in> set cs)"

datatype re =
    Eps | Lit jsstring | Cls cls | Star cls | Lazy cls | Plus cls
  | Opt re | Seq re re | Alt re re | WordB | Group re

text \<open>
  The flag \<open>i\<close> compares units after canonicalisation. Every literal of the
  source under that flag is made of ASCII units and of units without case, for which
  canonicalisation is the ASCII upper case: a unit beyond ASCII never canonicalises to
  an ASCII one.
\<close>

definition canon :: "nat \<Rightarrow> nat" where
  "canon c = (if 97 \<le> c \<and> c \<le> 122 then c - 32 else c)"

fun lit_at :: "bool \<Rightarrow> jsstring \<Rightarrow> jsstring \<Rightarrow> bool" where
  "lit_at ci [] s = True"
| "lit_at ci (y # p) [] = False"
| "lit_at ci (y # p) (x # s) =
     ((if ci then canon x = canon y else x = y) \<and> lit_at ci p s)"

text \<open>The number of units of the class at the head of \<open>s\<close>.\<close>

definition run :: "cls \<Rightarrow> jsstring \<Rightarrow> nat" where
  "run x s = length (takeWhile (in_cls x) s)"

text \<open>\<open>\b\<close> at index \<open>i\<close>: exactly one of the units before and after is a word
  character (there is none beyond the ends).\<close>

definition boundary :: "jsstring \<Rightarrow> nat \<Rightarrow> bool" where
  "boundary s i =
     ((0 < i \<and> i \<le> length s \<and> is_word (s ! (i - 1))) \<noteq> (i < length s \<and> is_word (s ! i)))"

datatype frame = Match re | Close nat

type_synonym capture = "(nat \<times> nat) option"

fun first_of :: "(nat \<Rightarrow> 'a option) \<Rightarrow> nat list \<Rightarrow> 'a option" where
  "first_of f [] = None"
| "first_of f (n # ns) = (case f n of Some y \<Rightarrow> Some y | None \<Rightarrow> first_of f ns)"

lemma first_of_cong [fundef_cong]:
  "xs = ys \<Longrightarrow> (\<And>x. x \<in> set ys \<Longrightarrow> f x = g x) \<Longrightarrow> first_of f xs = first_of g ys"
  by (induction ys arbitrary: xs) (auto split: option.splits)

fun weight :: "re \<Rightarrow> nat" where
  "weight (Opt r) = Suc (weight r)"
| "weight (Seq r1 r2) = Suc (weight r1 + weight r2)"
| "weight (Alt r1 r2) = Suc (weight r1 + weight r2)"
| "weight (Group r) = Suc (Suc (weight r))"
| "weight r = 1"

fun fweight :: "frame \<Rightarrow> nat" where
  "fweight (Match r) = weight r"
| "fweight (Close b) = 1"

text \<open>
  A greedy quantifier tries the longest run first and gives units back one at a time;
  a lazy one starts from the empty run. \<open>Close b\<close> ends the group opened at \<open>b\<close>.
\<close>

function re_match :: "bool \<Rightarrow> jsstring \<Rightarrow> frame list \<Rightarrow> nat \<Rightarrow> capture \<Rightarrow> (nat \<times> capture) option" where
  "re_match ci s [] i c = Some (i, c)"
| "re_match ci s (Close b # k) i c = re_match ci s k i (Some (b, i))"
| "re_match ci s (Match Eps # k) i c = re_match ci s k i c"
| "re_match ci s (Match (Lit p) # k) i c =
     (if lit_at ci p (drop i s) then re_match ci s k (i + length p) c else None)"
| "re_match ci s (Match (Cls x) # k) i c =
     (if i < length s \<and> in_cls x (s ! i) then re_match ci s k (Suc i) c else None)"
| "re_match ci s (Match (Star x) # k) i c =
     first_of (\<lambda>n. re_match ci s k (i + n) c) (rev [0..<Suc (run x (drop i s))])"
| "re_match ci s (Match (Lazy x) # k) i c =
     first_of (\<lambda>n. re_match ci s k (i + n) c) [0..<Suc (run x (drop i s))]"
| "re_match ci s (Match (Plus x) # k) i c =
     first_of (\<lambda>n. re_match ci s k (i + n) c) (rev [1..<Suc (run x (drop i s))])"
| "re_match ci s (Match (Opt r) # k) i c =
     (case re_match ci s (Match r # k) i c of Some y \<Rightarrow> Some y | None \<Rightarrow> re_match ci s k i c)"
| "re_match ci s (Match (Seq r1 r2) # k) i c = re_match ci s (Match r1 # Match r2 # k) i c"
| "re_match ci s (Match (Alt r1 r2) # k) i c =
     (case re_match ci s (Match r1 # k) i c of
        Some y \<Rightarrow> Some y
      | None \<Rightarrow> re_match ci s (Match r2 # k) i c)"
| "re_match ci s (Match WordB # k) i c = (if boundary s i then re_match ci s k i c else None)"
| "re_match ci s (Match (Group r) # k) i c = re_match ci s (Match r # Close i # k) i c"
  by pat_completeness auto
termination
  by (relation "measure (\<lambda>(ci, s, k, i, c). sum_list (map fweight k))") auto

text \<open>
  \<open>exec\<close> is one call of \<open>RegExp.prototype.exec\<close> without the \<open>g\<close> flag: the
  match at the leftmost index that has one, as (start, end, capture). \<open>test\<close> says
  whether there is one.
\<close>

definition exec :: "bool \<Rightarrow> re \<Rightarrow> jsstring \<Rightarrow> (nat \<times> nat \<times> capture) option" where
  "exec ci r s =
     first_of (\<lambda>i. map_option (Pair i) (re_match ci s [Match r] i None)) [0..<Suc (length s)]"

definition test :: "bool \<Rightarrow> re \<Rightarrow> jsstring \<Rightarrow> bool" where
  "test ci r s = (exec ci r s \<noteq> None)"

text \<open>
  \<open>s.match(r)\<close> with the \<open>g\<close> flag, from index \<open>i\<close>: the matched substrings from
  left to right, each search starting where the previous match ended (one unit further
  after an empty match). The empty list stands for \<open>null\<close>, which the source replaces
  by \<open>[]\<close>.
\<close>

function match_all :: "bool \<Rightarrow> re \<Rightarrow> jsstring \<Rightarrow> nat \<Rightarrow> jsstring list" where
  "match_all ci r s i =
     (if length s < i then []
      else (case re_match ci s [Match r] i None of
              None \<Rightarrow> match_all ci r s (Suc i)
            | Some (j, c) \<Rightarrow> slice s i j # match_all ci r s (if i < j then j else Suc i)))"
  by pat_completeness auto
termination
  by (relation "measure (\<lambda>(ci, r, s, i). Suc (length s) - i)") auto

declare match_all.simps [simp del]

fun seq :: "re list \<Rightarrow> re" where
  "seq [] = Eps"
| "seq [r] = r"
| "seq (r # rs) = Seq r (seq rs)"

fun alt :: "re list \<Rightarrow> re" where
  "alt [] = Eps"
| "alt [r] = r"
| "alt (r # rs) = Alt r (alt rs)"

section \<open>Numbers\<close>

text \<open>
  A finite JavaScript number is modelled by the decimal it prints as: \<open>Dec m e\<close> is
  \<open>m \<times> 10^e\<close>, with \<open>m\<close> not a multiple of 10 (and \<open>Dec 0 0\<close> for zero, \<open>-0\<close>
  included: the source only puts numbers in a \<open>Set\<close> and prints them, which do not
  tell the two zeros apart). A double has one shortest decimal that reads back as
  itself, which is what \<open>String\<close> prints, so two doubles are equal exactly when their
  decimals are.
\<close>

datatype jsnum = Dec int int

datatype jsdouble = Finite jsnum | PosInfinity | NegInfinity | NaN

function norm_dec :: "int \<Rightarrow> int \<Rightarrow> jsnum" where
  "norm_dec m e =
     (if m = 0 then Dec 0 0
      else if m mod 10 = 0 then norm_dec (m div 10) (e + 1)
      else Dec m e)"
  by pat_completeness auto
termination
  by (relation "measure (\<lambda>(m, e). nat \<bar>m\<bar>)") auto

declare norm_dec.simps [simp del]

definition num :: "int \<Rightarrow> jsdouble" where
  "num n = Finite (norm_dec n 0)"

definition isFinite :: "jsdouble \<Rightarrow> bool" where
  "isFinite d = (case d of Finite v \<Rightarrow> True | _ \<Rightarrow> False)"

text \<open>The value of a string of ASCII digits.\<close>

definition digits_val :: "jsstring \<Rightarrow> nat" where
  "digits_val ds = foldl (\<lambda>v d. 10 * v + (d - 48)) 0 ds"

text \<open>
  A decimal of magnitude \<open>2^1024 - 2^970\<close> or more rounds to an infinity (it is
  the midpoint between the largest double and \<open>2^1024\<close>, and the tie goes to the
  even side).
\<close>

definition overflow_bound :: nat where
  "overflow_bound = 2 ^ 1024 - 2 ^ 970"

text \<open>
  \<open>Number(s)\<close> for a string of the shape \<open>-?\d+(\.\d+)?\<close>, the only strings the
  source converts; another string gives \<open>NaN\<close> here (the grammar of numeric strings
  is wider, but no such string reaches the call). The model keeps the value of the
  literal where a double rounds it: they print alike for a literal of at most 15
  significant digits whose magnitude is that of a normal double, which is where the
  model is exact.
\<close>

definition Number_of :: "jsstring \<Rightarrow> jsdouble" where
  "Number_of s =
     (let neg = (s \<noteq> [] \<and> hd s = 45);
          t = (if neg then tl s else s);
          ip = takeWhile is_digit t;
          r = dropWhile is_digit t;
          fp = (if r = [] then [] else tl r)
      in if ip = [] \<or> (r \<noteq> [] \<and> (hd r \<noteq> 46 \<or> fp = [] \<or> \<not> list_all is_digit fp)) then NaN
         else
           let mant = digits_val (ip @ fp)
           in if overflow_bound * 10 ^ length fp \<le> mant
              then (if neg then NegInfinity else PosInfinity)
              else Finite (norm_dec (if neg then - int mant else int mant) (- int (length fp))))"

text \<open>The decimal digits of a natural number.\<close>

function digits_of :: "nat \<Rightarrow> jsstring" where
  "digits_of n = (if n < 10 then [48 + n] else digits_of (n div 10) @ [48 + n mod 10])"
  by pat_completeness auto
termination
  by (relation "measure (\<lambda>n. n)") auto

declare digits_of.simps [simp del]

text \<open>
  \<open>String(v)\<close>, that is \<open>Number::toString\<close> in radix 10: with \<open>k\<close> digits and the
  decimal point after the \<open>n\<close>-th, plain digits when \<open>k \<le> n \<le> 21\<close>, a decimal
  point inside when \<open>0 < n \<le> 21\<close>, leading zeros when \<open>-6 < n \<le> 0\<close>, and the
  exponent notation otherwise.
\<close>

definition String_of :: "jsdouble \<Rightarrow> jsstring" where
  "String_of d =
     (case d of
        NaN \<Rightarrow> a ''NaN''
      | PosInfinity \<Rightarrow> a ''Infinity''
      | NegInfinity \<Rightarrow> a ''-Infinity''
      | Finite (Dec mt e) \<Rightarrow>
          if mt = 0 then a ''0''
          else
            let ds = digits_of (nat \<bar>mt\<bar>);
                k = int (length ds);
                n = k + e;
                ex = (if n - 1 < 0 then a ''-'' else a ''+'') @ digits_of (nat \<bar>n - 1\<bar>)
            in (if mt < 0 then a ''-'' else []) @
               (if k \<le> n \<and> n \<le> 21 then ds @ replicate (nat (n - k)) 48
                else if 0 < n \<and> n \<le> 21 then take (nat n) ds @ a ''.'' @ drop (nat n) ds
                else if - 6 < n \<and> n \<le> 0 then a ''0.'' @ replicate (nat (- n)) 48 @ ds
                else if k = 1 then ds @ a ''e'' @ ex
                else take 1 ds @ a ''.'' @ drop 1 ds @ a ''e'' @ ex))"

text \<open>\<open>Math.max(lo, Math.min(hi, n))\<close>, on the integers the source calls it with.\<close>

definition clamp :: "int \<Rightarrow> int \<Rightarrow> int \<Rightarrow> int" where
  "clamp n lo hi = max lo (min hi n)"

section \<open>JSON values\<close>

text \<open>
  The envelope is whatever \<open>JSON.parse\<close> returned (\<open>graph: any\<close>). An object is
  the list of its own properties in insertion order.
\<close>

datatype json =
    JNull | JBool bool | JNum jsdouble | JStr jsstring
  | JArr "json list" | JObj "(jsstring \<times> json) list"

definition jn :: "int \<Rightarrow> json" where
  "jn n = JNum (num n)"

text \<open>\<open>!!v\<close>.\<close>

fun truthy :: "json \<Rightarrow> bool" where
  "truthy JNull = False"
| "truthy (JBool b) = b"
| "truthy (JNum d) = (case d of Finite (Dec mt e) \<Rightarrow> mt \<noteq> 0 | NaN \<Rightarrow> False | _ \<Rightarrow> True)"
| "truthy (JStr s) = (s \<noteq> [])"
| "truthy (JArr xs) = True"
| "truthy (JObj fs) = True"

text \<open>\<open>typeof v === "object"\<close> (which \<open>null\<close> satisfies too).\<close>

fun is_object :: "json \<Rightarrow> bool" where
  "is_object JNull = True"
| "is_object (JArr xs) = True"
| "is_object (JObj fs) = True"
| "is_object v = False"

text \<open>
  \<open>v.name\<close> for the property names the source reads (\<open>charts\<close>, \<open>checklist\<close>,
  \<open>questions\<close>, \<open>recap_table\<close>, \<open>rows\<close>), none of which an array or a
  prototype has: \<open>None\<close> is \<open>undefined\<close>.
\<close>

fun get_prop :: "json \<Rightarrow> jsstring \<Rightarrow> json option" where
  "get_prop (JObj fs) key = map_of fs key"
| "get_prop v key = None"

text \<open>
  \<open>v.name = x\<close> on an object: the property keeps its place when it exists and is
  added last otherwise. On an array the assignment creates a property that is no
  element, which \<open>JSON.stringify\<close> does not write: the value the route answers with is
  the array as it was.
\<close>

fun set_prop :: "json \<Rightarrow> jsstring \<Rightarrow> json \<Rightarrow> json" where
  "set_prop (JObj fs) key x = JObj (AList.update key x fs)"
| "set_prop v key x = v"

text \<open>\<open>Array.isArray(v) ? v : []\<close> for a property that may be missing.\<close>

definition array_or_empty :: "json option \<Rightarrow> json list" where
  "array_or_empty v = (case v of Some (JArr xs) \<Rightarrow> xs | _ \<Rightarrow> [])"

section \<open>The chat route (src/unnamed/part_001)\<close>

datatype Speed = VITE | APPROFONDIE

subsection \<open>getSignals\<close>

text \<open>\<open>/-?\d+(?:[.,]\d+)?/g\<close>\<close>

definition number_re :: re where
  "number_re =
     seq [Opt (Lit (a ''-'')), Plus Digit, Opt (seq [Cls (OneOf (a ''.,'')), Plus Digit])]"

text \<open>\<open>/%|Dc|c\b|w\d+|w\s*\d+|h\b|heures?|min\b|minutes?|E|eur|kg\b|g\b|gr\b|tD|temp/i\<close>,
  where \<open>D\<close> stands for the degree sign (the unit 176) and \<open>E\<close> for the euro sign
  (the unit 8364).\<close>

definition units_re :: re where
  "units_re =
     alt [Lit (a ''%''),
          Lit ([176] @ a ''c''),
          seq [Lit (a ''c''), WordB],
          seq [Lit (a ''w''), Plus Digit],
          seq [Lit (a ''w''), Star Space, Plus Digit],
          seq [Lit (a ''h''), WordB],
          seq [Lit (a ''heure''), Opt (Lit (a ''s''))],
          seq [Lit (a ''min''), WordB],
          seq [Lit (a ''minute''), Opt (Lit (a ''s''))],
          Lit [8364],
          Lit (a ''eur''),
          seq [Lit (a ''kg''), WordB],
          seq [Lit (a ''g''), WordB],
          seq [Lit (a ''gr''), WordB],
          Lit (a ''t'' @ [176]),
          Lit (a ''temp'')]"

text \<open>\<open>/\bou\b/\<close>, \<open>/(\d+)\s*h\b/\<close>, \<open>/(\d+)\s*min\b/\<close> and \<open>/w\d+/\<close>\<close>

definition ou_re :: re where
  "ou_re = seq [WordB, Lit (a ''ou''), WordB]"

definition hours_re :: re where
  "hours_re = seq [Group (Plus Digit), Star Space, Lit (a ''h''), WordB]"

definition minutes_re :: re where
  "minutes_re = seq [Group (Plus Digit), Star Space, Lit (a ''min''), WordB]"

definition w_re :: re where
  "w_re = seq [Lit (a ''w''), Plus Digit]"

record signals =
  msg :: jsstring
  nums :: "jsdouble list"
  hasVariables :: bool
  hasUnits :: bool
  isComparison :: bool
  isProtocol :: bool
  topic :: jsstring

text \<open>
  \<open>message || ""\<close> is \<open>message\<close> for a string. The keywords with an accent are
  \<open>appr\<close>, 234, \<open>t\<close>; \<open>vo\<close>, 251, \<open>te\<close>; and \<open>co\<close>, 251, \<open>t\<close>.
\<close>

definition getSignals :: "jsstring \<Rightarrow> signals" where
  "getSignals message =
     (let msg = toLowerCase message;
          numberMatches = match_all False number_re msg 0;
          nums = filter isFinite (map (\<lambda>s. Number_of (replace s (a '','') (a ''.''))) numberMatches);
          hasUnits = test True units_re msg;
          hasVariables =
            (0 < length nums \<and>
             (hasUnits \<or> js_includes msg (a ''w260'') \<or> js_includes msg (a ''w320'')));
          isComparison =
            (js_includes msg (a ''comparer'') \<or>
             js_includes msg (a ''comparaison'') \<or>
             js_includes msg (a ''vs'') \<or>
             js_includes msg (a ''versus'') \<or>
             js_includes msg (a ''w260'') \<or>
             js_includes msg (a ''w320'') \<or>
             test False ou_re msg);
          isProtocol =
            (js_includes msg (a ''protocole'') \<or>
             js_includes msg (a ''planning'') \<or>
             js_includes msg (a ''timeline'') \<or>
             js_includes msg (a ''pointage'') \<or>
             js_includes msg (a ''appr'' @ [234] @ a ''t'') \<or>
             js_includes msg (a ''appret'') \<or>
             js_includes msg (a ''frigo'') \<or>
             js_includes msg (a ''48h'') \<or>
             js_includes msg (a ''48 h'') \<or>
             js_includes msg (a ''24h'') \<or>
             js_includes msg (a ''24 h'') \<or>
             js_includes msg (a ''72h'') \<or>
             js_includes msg (a ''72 h'') \<or>
             test False hours_re msg \<or>
             test False minutes_re msg);
          topic =
            (if js_includes msg (a ''farine'') \<or> test False w_re msg then a ''farines''
             else if js_includes msg (a ''four'') \<or> js_includes msg (a ''cuisson'') \<or>
                     js_includes msg (a ''sole'') \<or> js_includes msg (a ''vo'' @ [251] @ a ''te'') \<or>
                     js_includes msg (a ''voute'') then a ''fours''
             else if js_includes msg (a ''marge'') \<or> js_includes msg (a ''rentable'') \<or>
                     js_includes msg (a ''co'' @ [251] @ a ''t'') \<or> js_includes msg (a ''cout'') \<or>
                     js_includes msg [8364] then a ''economie''
             else if js_includes msg (a ''concurrence'') \<or> js_includes msg (a ''positionnement'') \<or>
                     js_includes msg (a ''usp'') then a ''concurrence''
             else if js_includes msg (a ''organisation'') \<or> js_includes msg (a ''process'') \<or>
                     js_includes msg (a ''rush'') \<or> js_includes msg (a ''service'') then a ''organisation''
             else a ''general'')
      in \<lparr>msg = msg, nums = nums, hasVariables = hasVariables, hasUnits = hasUnits,
          isComparison = isComparison, isProtocol = isProtocol, topic = topic\<rparr>)"

subsection \<open>buildRadar\<close>

text \<open>
  In the strings below the units beyond ASCII are written as numbers: 176 the degree
  sign, 224 to 251 the accented small letters of Latin-1, 201 the capital E with acute
  accent, 8211 and 8212 the en and em dashes, 39 the apostrophe.
\<close>

definition radar_farines :: json where
  "radar_farines =
     JObj
      [(a ''labels'', JArr
             [JStr (a ''Force (W)''),
              JStr (a ''Tol'' @ [233] @ a ''rance froid''),
              JStr (a ''Extensibilit'' @ [233]),
              JStr (a ''Absorption''),
              JStr (a ''R'' @ [233] @ a ''gularit'' @ [233]),
              JStr (a ''Risques (tenace)'')]),
       (a ''values'', JArr (map jn [70, 75, 60, 65, 70, 55])),
       (a ''note'', JStr (a ''Radar qualitatif (0'' @ [8211] @ a ''100). Ajustable d'' @ [232] @ a ''s que tu fournis % hydratation, T'' @ [176] @ a '', inoculation et dur'' @ [233] @ a ''e.''))]"

definition radar_fours :: json where
  "radar_fours =
     JObj
      [(a ''labels'', JArr
             [JStr (a ''Stabilit'' @ [233] @ a '' T'' @ [176]),
              JStr (a ''R'' @ [233] @ a ''cup'' @ [233] @ a ''ration''),
              JStr (a ''Sole (homog.)''),
              JStr (a ''Puissance''),
              JStr (a ''Consommation''),
              JStr (a ''Budget/ROI'')]),
       (a ''values'', JArr (map jn [70, 70, 65, 75, 55, 60])),
       (a ''note'', JStr (a ''Radar qualitatif (0'' @ [8211] @ a ''100) pour comparer des options de fours.''))]"

definition radar_economie :: json where
  "radar_economie =
     JObj
      [(a ''labels'', JArr
             [JStr (a ''Co'' @ [251] @ a ''t mati'' @ [232] @ a ''re''),
              JStr (a ''Temps prep''),
              JStr (a ''Prix per'' @ [231] @ a ''u''),
              JStr (a ''Marge''),
              JStr (a ''Complexit'' @ [233]),
              JStr (a ''Vitesse service'')]),
       (a ''values'', JArr (map jn [65, 60, 70, 70, 55, 65])),
       (a ''note'', JStr (a ''Radar qualitatif (0'' @ [8211] @ a ''100). Fournis 2-3 co'' @ [251] @ a ''ts pour le rendre chiffr'' @ [233] @ a ''.''))]"

definition radar_organisation :: json where
  "radar_organisation =
     JObj
      [(a ''labels'', JArr
             [JStr (a ''Mise en place''),
              JStr (a ''Flux''),
              JStr (a ''Standardisation''),
              JStr (a ''Qualit'' @ [233]),
              JStr (a ''Stress''),
              JStr (a ''D'' @ [233] @ a ''bit'')]),
       (a ''values'', JArr (map jn [65, 60, 65, 70, 55, 60])),
       (a ''note'', JStr (a ''Radar qualitatif (0'' @ [8211] @ a ''100) sur l'' @ [39] @ a ''efficacit'' @ [233] @ a '' op'' @ [233] @ a ''rationnelle.''))]"

definition radar_concurrence :: json where
  "radar_concurrence =
     JObj
      [(a ''labels'', JArr
             [JStr (a ''Diff'' @ [233] @ a ''renciation''),
              JStr (a ''Lisibilit'' @ [233] @ a '' offre''),
              JStr (a ''Prix''),
              JStr (a ''Localisation''),
              JStr (a ''Preuves qualit'' @ [233]),
              JStr (a ''R'' @ [233] @ a ''p'' @ [233] @ a ''tabilit'' @ [233])]),
       (a ''values'', JArr (map jn [65, 60, 60, 55, 70, 60])),
       (a ''note'', JStr (a ''Radar qualitatif (0'' @ [8211] @ a ''100) pour structurer un positionnement.''))]"

definition radar_general :: json where
  "radar_general =
     JObj
      [(a ''labels'', JArr
             [JStr (a ''Fermentation''),
              JStr (a ''Hydratation''),
              JStr (a ''P'' @ [233] @ a ''trissage''),
              JStr (a ''Fa'' @ [231] @ a ''onnage''),
              JStr (a ''Cuisson''),
              JStr (a ''Organisation'')]),
       (a ''values'', JArr (map jn [60, 60, 60, 60, 60, 60])),
       (a ''note'', JStr (a ''Radar g'' @ [233] @ a ''n'' @ [233] @ a ''rique (0'' @ [8211] @ a ''100). Donne 3 param'' @ [232] @ a ''tres pour le personnaliser.''))]"

definition buildRadar :: "jsstring \<Rightarrow> json" where
  "buildRadar tp =
     (if tp = a ''farines'' then radar_farines
      else if tp = a ''fours'' then radar_fours
      else if tp = a ''economie'' then radar_economie
      else if tp = a ''organisation'' then radar_organisation
      else if tp = a ''concurrence'' then radar_concurrence
      else radar_general)"

subsection \<open>ensureGenericChartsAlways\<close>

definition radar_chart :: "jsstring \<Rightarrow> json" where
  "radar_chart tp =
     JObj
      [(a ''type'', JStr (a ''radar'')),
       (a ''title'', JStr (a ''Radar (auto) '' @ [8212] @ a '' lecture scientifique'')),
       (a ''description'', JStr (a ''Scores qualitatifs (0'' @ [8211] @ a ''100) pour visualiser compromis / risques / leviers.'')),
       (a ''data'', buildRadar tp)]"

definition timeline_steps :: "json list" where
  "timeline_steps =
     [JObj [(a ''label'', JStr (a ''P'' @ [233] @ a ''trissage'')),
                    (a ''minutes'', jn 15),
                    (a ''purpose'', JStr (a ''D'' @ [233] @ a ''velopper r'' @ [233] @ a ''seau sans chauffer (viser T'' @ [176] @ a '' p'' @ [226] @ a ''te stable)''))],
      JObj [(a ''label'', JStr (a ''Pointage'')),
                    (a ''minutes'', jn 60),
                    (a ''purpose'', JStr (a ''D'' @ [233] @ a ''marrage fermentation (observer volume/tension)''))],
      JObj [(a ''label'', JStr (a ''Boulage'')),
                    (a ''minutes'', jn 10),
                    (a ''purpose'', JStr (a ''Cr'' @ [233] @ a ''er tension de surface (p'' @ [226] @ a ''tons homog'' @ [232] @ a ''nes)''))],
      JObj [(a ''label'', JStr (a ''Froid'')),
                    (a ''minutes'', jn 2880),
                    (a ''purpose'', JStr (a ''48h frigo (maturation/tenue)''))],
      JObj [(a ''label'', JStr (a ''Remise T'' @ [176])),
                    (a ''minutes'', jn 120),
                    (a ''purpose'', JStr (a ''R'' @ [233] @ a ''activer fermentation avant cuisson''))]]"

definition timeline_chart :: "json" where
  "timeline_chart =
     JObj
      [(a ''type'', JStr (a ''timeline'')),
       (a ''title'', JStr (a ''Timeline (auto) '' @ [8212] @ a '' structure du protocole'')),
       (a ''description'', JStr ([201] @ a ''tapes typiques ('' @ [224] @ a '' ajuster selon T'' @ [176] @ a '' frigo, inoculation, force farine).'')),
       (a ''data'', JObj
          [(a ''steps'', JArr timeline_steps),
           (a ''note'', JStr (a ''Timeline indicative. Donne T'' @ [176] @ a '' frigo + inoculation (% levure/levain) pour calibrer.''))])]"

definition bar_chart :: "jsstring \<Rightarrow> json" where
  "bar_chart tp =
     JObj
      [(a ''type'', JStr (a ''bar'')),
       (a ''title'', JStr (a ''Comparaison (auto) '' @ [8212] @ a '' scores relatifs'')),
       (a ''description'', JStr (a ''Plus haut = plus adapt'' @ [233] @ a '' au cas d'' @ [233] @ a ''crit (qualitatif).'')),
       (a ''data'', JObj
          [(a ''labels'',
            (if tp = a ''farines''
             then JArr [JStr (a ''Option A (W260)''), JStr (a ''Option B (W320)'')]
             else JArr [JStr (a ''Option A''), JStr (a ''Option B'')])),
           (a ''values'', (if tp = a ''farines'' then JArr [jn 60, jn 78] else JArr [jn 65, jn 70])),
           (a ''unit'', JStr (a ''score'')),
           (a ''note'', JStr (a ''Scores indicatifs (qualitatifs). Ajoute 2'' @ [8211] @ a ''3 param'' @ [232] @ a ''tres pour quantifier.''))])]"

text \<open>
  \<open>Array.from(new Set(xs))\<close>: the distinct values of \<open>xs\<close>, each at its first
  occurrence.
\<close>

definition uniq :: "'a list \<Rightarrow> 'a list" where
  "uniq xs = rev (remdups (rev xs))"

definition scatter_point :: "nat \<times> jsdouble \<Rightarrow> json" where
  "scatter_point p =
     (case p of (i, v) \<Rightarrow>
        JObj [(a ''x'', JNum v),
              (a ''y'', jn (clamp (55 + int i * 6) 40 90)),
              (a ''label'', JStr (String_of v))])"

definition scatter_points :: "jsdouble list \<Rightarrow> json list" where
  "scatter_points ns = map scatter_point (enumerate 0 (take 6 (uniq (take 6 ns))))"

definition scatter_chart :: "jsdouble list \<Rightarrow> json" where
  "scatter_chart ns =
     JObj
      [(a ''type'', JStr (a ''scatter'')),
       (a ''title'', JStr (a ''Scatter (auto) '' @ [8212] @ a '' sensibilit'' @ [233] @ a '' (qualitative)'')),
       (a ''description'', JStr (a ''Projection qualitative : comment une variable (x) peut influencer un score (y).'')),
       (a ''data'', JObj
          [(a ''x_label'', JStr (a ''Valeur d'' @ [233] @ a ''tect'' @ [233] @ a ''e'')),
           (a ''y_label'', JStr (a ''Score qualitatif'')),
           (a ''points'', JArr (scatter_points ns)),
           (a ''note'', JStr (a ''Scatter qualitatif (d'' @ [233] @ a ''monstration). Pour du chiffr'' @ [233] @ a '': pr'' @ [233] @ a ''cise la variable (hydratation, T'' @ [176] @ a '', inoculation) et la mesure cible.''))])]"

definition table_chart :: "json \<Rightarrow> json" where
  "table_chart recap_table =
     JObj
      [(a ''type'', JStr (a ''table'')),
       (a ''title'', JStr (a ''Tableau (auto) '' @ [8212] @ a '' synth'' @ [232] @ a ''se'')),
       (a ''description'', JStr (a ''G'' @ [233] @ a ''n'' @ [233] @ a ''r'' @ [233] @ a '' automatiquement (structure).'')),
       (a ''data'', recap_table)]"

definition recap_columns :: json where
  "recap_columns = JArr [JStr (a ''Levier''), JStr (a ''Action''), JStr (a ''Indicateur'')]"

definition default_recap_table :: json where
  "default_recap_table =
     JObj [(a ''columns'', recap_columns),
           (a ''rows'', JArr []),
           (a ''note'', JStr (a ''Tableau cr'' @ [233, 233] @ a '' automatiquement (structure).''))]"

definition minimal_rows :: json where
  "minimal_rows =
     JArr
      [JArr [JStr (a ''Temp'' @ [233] @ a ''rature''),
             JStr (a ''Stabiliser T'' @ [176] @ a '' p'' @ [226] @ a ''te et T'' @ [176] @ a '' frigo''),
             JStr (a ''T'' @ [176] @ a '' p'' @ [226] @ a ''te (sonde) + tenue p'' @ [226] @ a ''tons'')],
       JArr [JStr (a ''Temps''),
             JStr (a ''Ajuster 1 variable '' @ [224] @ a '' la fois''),
             JStr (a ''Volume + extensibilit'' @ [233] @ a '' + bullage'')],
       JArr [JStr (a ''Inoculation''),
             JStr (a ''R'' @ [233] @ a ''duire/augmenter levure/levain selon T'' @ [176]),
             JStr (a ''Odeur + vitesse de pousse'')]]"

definition minimal_note :: json where
  "minimal_note =
     JStr (a ''Tableau auto ('' @ [224] @ a '' personnaliser d'' @ [232] @ a ''s que tu donnes 3 param'' @ [232] @ a ''tres).'')"

text \<open>
  The function, in the order of the source. First the structure is ensured:
  \<open>charts\<close>, \<open>checklist\<close> and \<open>questions\<close> become arrays, and \<open>recap_table\<close> an
  object.
\<close>

definition ensure_structure :: "json \<Rightarrow> json" where
  "ensure_structure graph =
     (let g1 = set_prop graph (a ''charts'') (JArr (array_or_empty (get_prop graph (a ''charts''))));
          g2 = set_prop g1 (a ''checklist'') (JArr (array_or_empty (get_prop g1 (a ''checklist''))));
          g3 = set_prop g2 (a ''questions'') (JArr (array_or_empty (get_prop g2 (a ''questions''))))
      in case get_prop g3 (a ''recap_table'') of
           None \<Rightarrow> set_prop g3 (a ''recap_table'') default_recap_table
         | Some t \<Rightarrow>
             if \<not> truthy t \<or> \<not> is_object t
             then set_prop g3 (a ''recap_table'') default_recap_table
             else g3)"

text \<open>
  The charts built when the model gave none. The table chart of the last step refers
  to the object \<open>graph.recap_table\<close> itself, so it would show the rows assigned to
  that object afterwards: \<open>recap\<close> is the table as it is at the end.
\<close>

definition auto_charts :: "signals \<Rightarrow> json \<Rightarrow> json list" where
  "auto_charts sg recap =
     (let charts1 = [radar_chart (topic sg)];
          charts2 = (if isProtocol sg then charts1 @ [timeline_chart] else charts1);
          charts3 = (if isComparison sg then charts2 @ [bar_chart (topic sg)] else charts2);
          charts4 = (if 2 \<le> length (nums sg) then charts3 @ [scatter_chart (nums sg)] else charts3)
      in if length charts4 = 0 then charts4 @ [table_chart recap] else charts4)"

text \<open>\<open>!Array.isArray(graph.recap_table.rows) || graph.recap_table.rows.length === 0\<close>\<close>

definition needs_rows :: "json \<Rightarrow> bool" where
  "needs_rows recap_table =
     (case get_prop recap_table (a ''rows'') of Some (JArr rows) \<Rightarrow> length rows = 0 | _ \<Rightarrow> True)"

definition ensure_rows :: "json \<Rightarrow> json" where
  "ensure_rows recap_table =
     (if needs_rows recap_table
      then set_prop
             (set_prop (set_prop recap_table (a ''columns'') recap_columns) (a ''rows'') minimal_rows)
             (a ''note'') minimal_note
      else recap_table)"

text \<open>
  \<open>graph\<close> is returned as it is unless it is an object. For an array (an object for
  \<open>typeof\<close>) every assignment of the function makes a property that is not
  serialised, so the answer of the route is the array unchanged.
\<close>

definition ensureGenericChartsAlways :: "json \<Rightarrow> Speed \<Rightarrow> jsstring \<Rightarrow> json" where
  "ensureGenericChartsAlways graph speed message =
     (if \<not> truthy graph \<or> \<not> is_object graph then graph
      else case graph of
        JArr xs \<Rightarrow> graph
      | _ \<Rightarrow>
        let sg = getSignals message;
            g = ensure_structure graph;
            needCharts =
              (speed = APPROFONDIE \<and> (hasVariables sg \<or> isComparison sg \<or> isProtocol sg))
        in if \<not> needCharts then g
           else if 0 < length (array_or_empty (get_prop g (a ''charts''))) then g
           else
             let recap = ensure_rows (case get_prop g (a ''recap_table'') of Some t \<Rightarrow> t | None \<Rightarrow> JNull)
             in set_prop (set_prop g (a ''charts'') (JArr (auto_charts sg recap)))
                  (a ''recap_table'') recap)"

text \<open>The text of the scenario of the specification.\<close>

definition scenario_text :: jsstring where
  "scenario_text = a ''Comparer W260 vs W320 pour fermentation 48h au froid''"

subsection \<open>extractGraphJsonBlock\<close>

text \<open>\<open>/<GRAPH_JSON>\s*([\s\S]*?)\s*<\/GRAPH_JSON>/i\<close>\<close>

definition open_marker :: jsstring where
  "open_marker = a ''<GRAPH_JSON>''"

definition close_marker :: jsstring where
  "close_marker = a ''</GRAPH_JSON>''"

definition graph_json_re :: re where
  "graph_json_re =
     seq [Lit open_marker, Star Space, Group (Lazy AnyUnit), Star Space, Lit close_marker]"

text \<open>
  \<open>m?.[1]\<close> is the captured substring; it is falsy when there is no match and when
  the capture is the empty string.
\<close>

definition extractGraphJsonBlock :: "jsstring \<Rightarrow> jsstring \<times> jsstring option" where
  "extractGraphJsonBlock raw =
     (case exec True graph_json_re raw of
        None \<Rightarrow> (trim raw, None)
      | Some (i, j, c) \<Rightarrow>
          let m0 = slice raw i j;
              m1 = (case c of None \<Rightarrow> [] | Some (b, e) \<Rightarrow> slice raw b e)
          in if m1 = [] then (trim raw, None)
             else (trim (replace raw m0 []), Some (trim m1)))"

text \<open>
  For the statements about the delimited block: \<open>same_ci u p\<close> says that \<open>u\<close> is
  the marker \<open>p\<close> up to the case of its letters, \<open>occurs_ci p s\<close> that \<open>p\<close> occurs in
  \<open>s\<close> up to case, and \<open>opens_at\<close> and \<open>closes_at\<close> that a marker starts at an
  index.
\<close>

definition same_ci :: "jsstring \<Rightarrow> jsstring \<Rightarrow> bool" where
  "same_ci u p = (length u = length p \<and> lit_at True p u)"

fun occurs_ci :: "jsstring \<Rightarrow> jsstring \<Rightarrow> bool" where
  "occurs_ci p [] = (p = [])"
| "occurs_ci p (x # s) = (lit_at True p (x # s) \<or> occurs_ci p s)"

definition opens_at :: "jsstring \<Rightarrow> nat \<Rightarrow> bool" where
  "opens_at s i = lit_at True open_marker (drop i s)"

definition closes_at :: "jsstring \<Rightarrow> nat \<Rightarrow> bool" where
  "closes_at s q = lit_at True close_marker (drop q s)"

subsection \<open>The repair pass of POST\<close>

text \<open>
  \<open>JSON.parse\<close> and the completion call \<open>client.responses.create\<close> are not code
  of the repository: they are the parameters \<open>parse\<close> (\<open>None\<close> when it throws) and
  \<open>completion\<close> (from the prompt to the \<open>output_text\<close> of the response, \<open>None\<close> when
  that is \<open>undefined\<close>, or \<open>Inl\<close> the error thrown).
\<close>

definition speed_name :: "Speed \<Rightarrow> jsstring" where
  "speed_name sp = (case sp of VITE \<Rightarrow> a ''VITE'' | APPROFONDIE \<Rightarrow> a ''APPROFONDIE'')"

definition repairPrompt :: "Speed \<Rightarrow> jsstring \<Rightarrow> jsstring option \<Rightarrow> jsstring" where
  "repairPrompt sp message json1 =
     ([10] @
      a ''Tu es un validateur JSON strict.'' @
      [10] @
      a ''Retourne UNIQUEMENT un JSON valide (sans texte). Respecte schema:'' @
      [10, 10] @
      a ''{'' @
      [10] @
      a ''  \"title\":\"string\",'' @
      [10] @
      a ''  \"summary\":\"string\",'' @
      [10] @
      a ''  \"confidence\":0-100,'' @
      [10] @
      a ''  \"charts\":[{\"type\":\"table|bar|timeline|radar|scatter\",\"title\":\"string\",\"description\":\"string\",\"data\":{}}],'' @
      [10] @
      a ''  \"checklist\":[{\"action\":\"string\",\"expected_effect\":\"string\",\"priority\":\"high|medium|low\"}],'' @
      [10] @
      a ''  \"recap_table\":{\"columns\":[\"a\",\"b\",\"c\"],\"rows\":['' @ a ''[\"x\",\"y\",\"z\"]'' @ a ''],\"note\":\"string\"},'' @
      [10] @
      a ''  \"questions\":[\"string\",\"string\"]'' @
      [10] @
      a ''}'' @
      [10, 10] @
      a ''Vitesse='' @
      speed_name sp @
      [10] @
      a ''Question='' @
      message @
      [10, 10] @
      a ''Si le JSON fourni est vide/invalide, reconstruis-le.'' @
      [10] @
      a ''JSON a reparer:'' @
      [10] @
      (case json1 of None \<Rightarrow> a ''(vide)'' | Some j \<Rightarrow> j) @
      [10])"

definition placeholder :: json where
  "placeholder =
     JObj
      [(a ''title'', JStr (a ''Synth'' @ [232] @ a ''se'')),
       (a ''summary'', JStr (a ''Donn'' @ [233] @ a ''es structur'' @ [233] @ a ''es indisponibles (erreur JSON).'')),
       (a ''confidence'', jn 40),
       (a ''charts'', JArr []),
       (a ''checklist'', JArr []),
       (a ''recap_table'', JObj [(a ''columns'', recap_columns),
                                  (a ''rows'', JArr []),
                                  (a ''note'', JStr (a ''JSON non r'' @ [233] @ a ''cup'' @ [233] @ a ''rable.''))]),
       (a ''questions'', JArr [])]"

text \<open>
  What the route does with the text \<open>raw1\<close> of the first response, up to the call of
  \<open>ensureGenericChartsAlways\<close>. The result is the list of the prompts sent to the
  completion service on the way, and either the error that escaped or the pair
  (\<open>text_fr\<close>, \<open>graph\<close>).
\<close>

definition maybe_truthy :: "json option \<Rightarrow> bool" where
  "maybe_truthy g = (case g of None \<Rightarrow> False | Some v \<Rightarrow> truthy v)"

definition repair ::
  "(jsstring \<Rightarrow> json option) \<Rightarrow> (jsstring \<Rightarrow> 'e + jsstring option) \<Rightarrow>
   Speed \<Rightarrow> jsstring \<Rightarrow> jsstring \<Rightarrow> jsstring list \<times> ('e + jsstring \<times> json)" where
  "repair parse completion sp message raw1 =
     (case extractGraphJsonBlock raw1 of (text1, json1) \<Rightarrow>
        let graph = (if falsy json1 then None else parse (the json1))
        in if maybe_truthy graph then ([], Inr (text1, the graph))
           else
             let prompt = repairPrompt sp message json1
             in (case completion prompt of
                   Inl err \<Rightarrow> ([prompt], Inl err)
                 | Inr out \<Rightarrow>
                     let raw2 = trim (case out of None \<Rightarrow> [] | Some t \<Rightarrow> t)
                     in (case parse raw2 of
                           Some g \<Rightarrow> ([prompt], Inr (text1, g))
                         | None \<Rightarrow> ([prompt], Inr (text1, placeholder)))))"

text \<open>The end of the route: the charts are guaranteed and the two parts are answered.\<close>

definition respond ::
  "(jsstring \<Rightarrow> json option) \<Rightarrow> (jsstring \<Rightarrow> 'e + jsstring option) \<Rightarrow>
   Speed \<Rightarrow> jsstring \<Rightarrow> jsstring \<Rightarrow> 'e + jsstring \<times> json" where
  "respond parse completion sp message raw1 =
     (case snd (repair parse completion sp message raw1) of
        Inl err \<Rightarrow> Inl err
      | Inr (text_fr, graph) \<Rightarrow> Inr (text_fr, ensureGenericChartsAlways graph sp message))"

text \<open>
  A stand-in for \<open>JSON.parse\<close> in the examples: it is right on the two objects it
  knows and on the texts of the examples that are no JSON, which it refuses. The
  completion of the examples answers every prompt with a sentence that is no JSON.
\<close>

definition sample_parse :: "jsstring \<Rightarrow> json option" where
  "sample_parse s =
     (if s = a ''{\"title\":\"T\"}'' then Some (JObj [(a ''title'', JStr (a ''T''))])
      else if s = a ''{\"a\":\"</GRAPH_JSON>\"}'' then Some (JObj [(a ''a'', JStr (a ''</GRAPH_JSON>''))])
      else None)"

definition sample_completion :: "jsstring \<Rightarrow> unit + jsstring option" where
  "sample_completion prompt = Inr (Some (a ''Voici: pas de JSON''))"

section \<open>The retrieval route (src/unnamed/part_000)\<close>

text \<open>
  A row of \<open>match_chunks\<close>. Its \<open>similarity\<close> is a double, here the rational
  number it stands for (which is what \<open>>=\<close> and \<open>toFixed\<close> go by), or \<open>None\<close>
  for \<open>null\<close> or \<open>undefined\<close>.
\<close>

record chunk =
  content :: jsstring
  similarity :: "rat option"
  chunk_index :: int
  document_id :: jsstring

text \<open>\<open>m.similarity ?? 0\<close>\<close>

definition sim :: "chunk \<Rightarrow> rat" where
  "sim c = (case similarity c of None \<Rightarrow> 0 | Some x \<Rightarrow> x)"

text \<open>The double written \<open>0.2\<close>: the nearest to one fifth, a little above it.\<close>

definition similarity_floor :: rat where
  "similarity_floor = 3602879701896397 / 18014398509481984"

text \<open>
  \<open>(matches ?? []).filter(...).slice(0, 6)\<close>; \<open>matches\<close> is \<open>null\<close> when the call
  of \<open>match_chunks\<close> failed, which the route only logs.
\<close>

definition retrieved :: "chunk list option \<Rightarrow> chunk list" where
  "retrieved matches =
     take 6 (filter (\<lambda>c. similarity_floor \<le> sim c) (case matches of None \<Rightarrow> [] | Some ms \<Rightarrow> ms))"

text \<open>
  \<open>x.toFixed(2)\<close> for a magnitude below \<open>10^21\<close> (a similarity is at most 1 in
  magnitude): the integer nearest to \<open>100 x\<close>, the larger one on a tie, with the
  decimal point before its last two digits.
\<close>

definition toFixed2 :: "rat \<Rightarrow> jsstring" where
  "toFixed2 x =
     (let n = nat \<lfloor>\<bar>x\<bar> * 100 + 1 / 2\<rfloor>;
          ds = digits_of n;
          ds3 = replicate (3 - length ds) 48 @ ds
      in (if x < 0 then a ''-'' else []) @
         take (length ds3 - 2) ds3 @ a ''.'' @ drop (length ds3 - 2) ds3)"

definition excerpt :: "nat \<times> chunk \<Rightarrow> jsstring" where
  "excerpt p =
     (case p of (i, c) \<Rightarrow>
        a ''EXTRAIT #'' @ digits_of (i + 1) @ a '' (sim='' @ toFixed2 (sim c) @ a ''):'' @ [10] @
        content c)"

definition no_excerpt :: jsstring where
  "no_excerpt = a ''(Aucun extrait pertinent trouv'' @ [233] @ a '' dans les documents.)''"

definition retrievedContext :: "chunk list \<Rightarrow> jsstring" where
  "retrievedContext rs =
     (if 0 < length rs
      then join ([10, 10] @ a ''---'' @ [10, 10]) (map excerpt (enumerate 0 rs))
      else no_excerpt)"

definition userPromptText :: "chunk list \<Rightarrow> jsstring option \<Rightarrow> jsstring \<Rightarrow> jsstring" where
  "userPromptText rs contextText message =
     trim ([10] @ a ''DOCUMENTS EPPPN / LIVRES (extraits) :'' @ [10] @
           retrievedContext rs @ [10, 10] @
           a ''Contexte utilisateur (optionnel) :'' @ [10] @
           (case contextText of None \<Rightarrow> a ''(non fourni)'' | Some t \<Rightarrow> t) @ [10, 10] @
           a ''Question :'' @ [10] @
           message @ [10])"

text \<open>The field \<open>rag\<close> of the answer: \<open>used\<close>, and \<open>top\<close> as (similarity,
  chunk index, document).\<close>

definition rag_used :: "chunk list option \<Rightarrow> nat" where
  "rag_used matches = length (retrieved matches)"

definition rag_top :: "chunk list option \<Rightarrow> (rat option \<times> int \<times> jsstring) list" where
  "rag_top matches = map (\<lambda>c. (similarity c, chunk_index c, document_id c)) (retrieved matches)"

text \<open>Two rows for the examples, below and above the floor.\<close>

definition low_chunk :: chunk where
  "low_chunk = \<lparr>content = a ''texte'', similarity = Some (1 / 8), chunk_index = 0, document_id = a ''doc''\<rparr>"

definition high_chunk :: chunk where
  "high_chunk = \<lparr>content = a ''texte'', similarity = Some (1 / 2), chunk_index = 1, document_id = a ''doc''\<rparr>"

section \<open>The basic-auth middleware (src/middleware.ts)\<close>

datatype response =
    NextResponse_next
  | NextResponse_new jsstring nat "(jsstring \<times> jsstring) list"

definition unauthorized :: response where
  "unauthorized =
     NextResponse_new (a ''Authentication required'') 401
       [(a ''WWW-Authenticate'', a ''Basic realm=\"Ernesto\"'')]"

text \<open>
  \<open>middleware\<close> reads the two secrets from the environment and the
  \<open>authorization\<close> header of the request. \<open>Buffer.from(encoded, "base64").toString("utf-8")\<close>
  is the platform's; it is the parameter \<open>base64_utf8\<close>.
\<close>

definition middleware ::
  "(jsstring \<Rightarrow> jsstring) \<Rightarrow> jsstring option \<Rightarrow> jsstring option \<Rightarrow> jsstring option \<Rightarrow> response" where
  "middleware base64_utf8 USER PASS auth =
     (if falsy USER \<or> falsy PASS then unauthorized
      else if falsy auth then unauthorized
      else
        let parts = split 32 (the auth);
            scheme = elem_at parts 0;
            encoded = elem_at parts 1
        in if scheme \<noteq> Some (a ''Basic'') \<or> falsy encoded then unauthorized
           else
             let decoded = base64_utf8 (the encoded);
                 creds = split 58 decoded;
                 user = elem_at creds 0;
                 pass = elem_at creds 1
             in if user = USER \<and> pass = PASS then NextResponse_next else unauthorized)"

section \<open>Evaluation\<close>

text \<open>The definitions that the simplifier unfolds to run the model on a given text.\<close>

lemmas char_defs = a_def is_digit_def is_word_def is_space_def canon_def lower_unit_def

lemmas re_defs = number_re_def units_re_def ou_re_def hours_re_def minutes_re_def w_re_def
  exec_def test_def run_def boundary_def slice_def match_all.simps

lemmas num_defs = Number_of_def num_def digits_val_def overflow_bound_def isFinite_def
  norm_dec.simps digits_of.simps

section \<open>Properties of the chart synthesis\<close>

lemma key_neq:
  "a ''charts'' \<noteq> a ''checklist''" "a ''charts'' \<noteq> a ''questions''"
  "a ''charts'' \<noteq> a ''recap_table''" "a ''checklist'' \<noteq> a ''charts''"
  "a ''questions'' \<noteq> a ''charts''" "a ''recap_table'' \<noteq> a ''charts''"
  by (simp_all add: a_def)

lemma ensure_structure_obj: "\<exists>fs'. ensure_structure (JObj fs) = JObj fs'"
  unfolding ensure_structure_def Let_def
  by (auto split: option.splits)

lemma ensure_structure_charts:
  "get_prop (ensure_structure (JObj fs)) (a ''charts'') =
     Some (JArr (array_or_empty (map_of fs (a ''charts''))))"
  unfolding ensure_structure_def Let_def
  by (auto simp: update_conv' key_neq split: option.splits)

lemma ensure_obj:
  "ensureGenericChartsAlways (JObj fs) speed message =
     (let sg = getSignals message;
          g = ensure_structure (JObj fs);
          needCharts =
            (speed = APPROFONDIE \<and> (hasVariables sg \<or> isComparison sg \<or> isProtocol sg))
      in if \<not> needCharts then g
         else if 0 < length (array_or_empty (get_prop g (a ''charts''))) then g
         else
           let recap = ensure_rows (case get_prop g (a ''recap_table'') of Some t \<Rightarrow> t | None \<Rightarrow> JNull)
           in set_prop (set_prop g (a ''charts'') (JArr (auto_charts sg recap)))
                (a ''recap_table'') recap)"
  by (simp add: ensureGenericChartsAlways_def)

text \<open>The radar chart is always built, so the table chart of the last step never is.\<close>

lemma auto_charts_eq:
  "auto_charts sg recap =
     [radar_chart (topic sg)] @
     (if isProtocol sg then [timeline_chart] else []) @
     (if isComparison sg then [bar_chart (topic sg)] else []) @
     (if 2 \<le> length (nums sg) then [scatter_chart (nums sg)] else [])"
  by (simp add: auto_charts_def Let_def)

lemma ensure_keeps_charts:
  assumes "map_of fs (a ''charts'') = Some (JArr cs)" "cs \<noteq> []"
  shows "get_prop (ensureGenericChartsAlways (JObj fs) sp message) (a ''charts'') = Some (JArr cs)"
proof -
  have "get_prop (ensure_structure (JObj fs)) (a ''charts'') = Some (JArr cs)"
    using assms(1) by (simp add: ensure_structure_charts array_or_empty_def)
  then show ?thesis
    using assms(2) by (simp add: ensure_obj Let_def array_or_empty_def)
qed

lemma ensure_synthesized:
  assumes "array_or_empty (map_of fs (a ''charts'')) = []"
    and "hasVariables (getSignals message) \<or> isComparison (getSignals message) \<or>
         isProtocol (getSignals message)"
  shows "get_prop (ensureGenericChartsAlways (JObj fs) APPROFONDIE message) (a ''charts'') =
           Some (JArr (auto_charts (getSignals message) JNull))"
proof -
  obtain fs' where fs': "ensure_structure (JObj fs) = JObj fs'"
    using ensure_structure_obj by blast
  have c: "get_prop (JObj fs') (a ''charts'') = Some (JArr [])"
    using ensure_structure_charts [of fs] assms(1) fs' by simp
  have same: "auto_charts sg r = auto_charts sg JNull" for sg r
    by (simp add: auto_charts_eq)
  have "ensureGenericChartsAlways (JObj fs) APPROFONDIE message =
      (let recap = ensure_rows (case get_prop (JObj fs') (a ''recap_table'') of
                                  Some t \<Rightarrow> t | None \<Rightarrow> JNull)
       in set_prop (set_prop (JObj fs') (a ''charts'') (JArr (auto_charts (getSignals message) JNull)))
            (a ''recap_table'') recap)"
    using assms(2) c unfolding ensure_obj fs' Let_def same [of _ "ensure_rows _"]
    by (simp add: array_or_empty_def)
  then show ?thesis
    by (simp add: Let_def update_conv' key_neq)
qed

subsection \<open>The scenario of the specification\<close>

lemma scenario_lower:
  "toLowerCase scenario_text = a ''comparer w260 vs w320 pour fermentation 48h au froid''"
  by (simp add: scenario_text_def toLowerCase_def char_defs)

lemma scenario_numbers:
  "match_all False number_re (a ''comparer w260 vs w320 pour fermentation 48h au froid'') 0 =
     [a ''260'', a ''320'', a ''48'']"
  by (simp add: char_defs re_defs)

lemma scenario_units:
  "test True units_re (a ''comparer w260 vs w320 pour fermentation 48h au froid'')"
  by (simp add: char_defs re_defs)

lemma scenario_w:
  "test False w_re (a ''comparer w260 vs w320 pour fermentation 48h au froid'')"
  by (simp add: char_defs re_defs)

lemma scenario_values:
  "Number_of (replace (a ''260'') (a '','') (a ''.'')) = num 260"
  "Number_of (replace (a ''320'') (a '','') (a ''.'')) = num 320"
  "Number_of (replace (a ''48'') (a '','') (a ''.'')) = num 48"
  by (simp_all add: num_defs char_defs Let_def)

lemma scenario_keywords:
  "js_includes (a ''comparer w260 vs w320 pour fermentation 48h au froid'') (a ''comparer'')"
  "js_includes (a ''comparer w260 vs w320 pour fermentation 48h au froid'') (a ''48h'')"
  by (simp_all add: a_def)

lemma scenario_signals:
  "nums (getSignals scenario_text) = [num 260, num 320, num 48]"
  "hasVariables (getSignals scenario_text)"
  "isComparison (getSignals scenario_text)"
  "isProtocol (getSignals scenario_text)"
  "topic (getSignals scenario_text) = a ''farines''"
  unfolding getSignals_def scenario_lower Let_def
  by (simp_all add: scenario_numbers scenario_units scenario_w scenario_values scenario_keywords
      isFinite_def num_def)

lemma scenario_points:
  "scatter_points [num 260, num 320, num 48] =
     [JObj [(a ''x'', jn 260), (a ''y'', jn 55), (a ''label'', JStr (a ''260''))],
      JObj [(a ''x'', jn 320), (a ''y'', jn 61), (a ''label'', JStr (a ''320''))],
      JObj [(a ''x'', jn 48), (a ''y'', jn 67), (a ''label'', JStr (a ''48''))]]"
  by (simp add: scatter_points_def scatter_point_def uniq_def enumerate_eq_zip jn_def num_def
      clamp_def String_of_def a_def Let_def norm_dec.simps digits_of.simps)

lemma scenario_charts:
  assumes "map_of fs (a ''charts'') = Some (JArr [])"
  shows "get_prop (ensureGenericChartsAlways (JObj fs) APPROFONDIE scenario_text) (a ''charts'') =
     Some (JArr [radar_chart (a ''farines''), timeline_chart, bar_chart (a ''farines''),
                 scatter_chart [num 260, num 320, num 48]])"
proof -
  have "array_or_empty (map_of fs (a ''charts'')) = []"
    using assms by (simp add: array_or_empty_def)
  then show ?thesis
    using ensure_synthesized [of fs scenario_text]
    by (simp add: scenario_signals auto_charts_eq)
qed

text \<open>
  Claim C1, as the code has it. For the text of the scenario, in the mode
  \<open>APPROFONDIE\<close> and from an envelope whose chart list is empty, the signals are the
  topic \<open>farines\<close>, a comparison and a protocol, and the chart list is the radar chart
  of the preset \<open>farines\<close>, the timeline chart of the five fixed steps, the bar chart
  with the labels \<open>Option A (W260)\<close>, \<open>Option B (W320)\<close> and the values 60 and 78,
  and then a fourth chart: the scatter chart of the three numbers 260, 320 and 48 of
  the text, with the scores 55, 61 and 67.
\<close>

theorem scenario_four_charts:
  assumes "map_of fs (a ''charts'') = Some (JArr [])"
  shows "topic (getSignals scenario_text) = a ''farines'' \<and>
         isComparison (getSignals scenario_text) \<and>
         isProtocol (getSignals scenario_text) \<and>
         get_prop (ensureGenericChartsAlways (JObj fs) APPROFONDIE scenario_text) (a ''charts'') =
           Some (JArr [radar_chart (a ''farines''), timeline_chart, bar_chart (a ''farines''),
                       scatter_chart [num 260, num 320, num 48]]) \<and>
         get_prop (radar_chart (a ''farines'')) (a ''data'') = Some radar_farines \<and>
         Option.bind (get_prop timeline_chart (a ''data'')) (\<lambda>d. get_prop d (a ''steps'')) =
           Some (JArr timeline_steps) \<and>
         length timeline_steps = 5 \<and>
         Option.bind (get_prop (bar_chart (a ''farines'')) (a ''data'')) (\<lambda>d. get_prop d (a ''labels'')) =
           Some (JArr [JStr (a ''Option A (W260)''), JStr (a ''Option B (W320)'')]) \<and>
         Option.bind (get_prop (bar_chart (a ''farines'')) (a ''data'')) (\<lambda>d. get_prop d (a ''values'')) =
           Some (JArr [jn 60, jn 78]) \<and>
         Option.bind (get_prop (scatter_chart [num 260, num 320, num 48]) (a ''data''))
             (\<lambda>d. get_prop d (a ''points'')) =
           Some (JArr
             [JObj [(a ''x'', jn 260), (a ''y'', jn 55), (a ''label'', JStr (a ''260''))],
              JObj [(a ''x'', jn 320), (a ''y'', jn 61), (a ''label'', JStr (a ''320''))],
              JObj [(a ''x'', jn 48), (a ''y'', jn 67), (a ''label'', JStr (a ''48''))]])"
proof -
  have data: "get_prop (radar_chart (a ''farines'')) (a ''data'') = Some radar_farines"
    by (simp add: radar_chart_def buildRadar_def a_def)
  have steps: "Option.bind (get_prop timeline_chart (a ''data'')) (\<lambda>d. get_prop d (a ''steps'')) =
      Some (JArr timeline_steps)"
    by (simp add: timeline_chart_def a_def)
  have five: "length timeline_steps = 5"
    by (simp add: timeline_steps_def)
  have labels: "Option.bind (get_prop (bar_chart (a ''farines'')) (a ''data''))
        (\<lambda>d. get_prop d (a ''labels'')) =
      Some (JArr [JStr (a ''Option A (W260)''), JStr (a ''Option B (W320)'')])"
    by (simp add: bar_chart_def a_def)
  have vals: "Option.bind (get_prop (bar_chart (a ''farines'')) (a ''data''))
        (\<lambda>d. get_prop d (a ''values'')) = Some (JArr [jn 60, jn 78])"
    by (simp add: bar_chart_def a_def)
  have pts: "Option.bind (get_prop (scatter_chart ns) (a ''data'')) (\<lambda>d. get_prop d (a ''points'')) =
      Some (JArr (scatter_points ns))" for ns
    by (simp add: scatter_chart_def a_def)
  show ?thesis
    using scenario_charts [OF assms] scenario_signals(3,4,5) data steps five labels vals
      pts [of "[num 260, num 320, num 48]"]
    unfolding scenario_points
    by (intro conjI)
qed

theorem scenario_four_charts_witness:
  "map_of [(a ''charts'', JArr [])] (a ''charts'') = Some (JArr []) \<and>
   get_prop (ensureGenericChartsAlways (JObj [(a ''charts'', JArr [])]) APPROFONDIE scenario_text)
       (a ''charts'') =
     Some (JArr [radar_chart (a ''farines''), timeline_chart, bar_chart (a ''farines''),
                 scatter_chart [num 260, num 320, num 48]])"
  using scenario_four_charts [of "[(a ''charts'', JArr [])]"]
  by simp

text \<open>
  The chart list of the scenario is not the list of three charts that claim C1 gives:
  it has the scatter chart as well.
\<close>

theorem scenario_three_charts_counterexample:
  "get_prop (ensureGenericChartsAlways (JObj [(a ''charts'', JArr [])]) APPROFONDIE scenario_text)
       (a ''charts'') \<noteq>
     Some (JArr [radar_chart (a ''farines''), timeline_chart, bar_chart (a ''farines'')])"
  using scenario_charts [of "[(a ''charts'', JArr [])]"]
  by simp

section \<open>Properties of the signal extractor\<close>

lemma signals_fields:
  "msg (getSignals m) = toLowerCase m"
  "nums (getSignals m) =
     filter isFinite (map (\<lambda>s. Number_of (replace s (a '','') (a ''.'')))
       (match_all False number_re (toLowerCase m) 0))"
  "hasUnits (getSignals m) = test True units_re (toLowerCase m)"
  "hasVariables (getSignals m) =
     (0 < length (nums (getSignals m)) \<and>
      (hasUnits (getSignals m) \<or> js_includes (toLowerCase m) (a ''w260'') \<or>
       js_includes (toLowerCase m) (a ''w320'')))"
  "isComparison (getSignals m) =
     (js_includes (toLowerCase m) (a ''comparer'') \<or>
      js_includes (toLowerCase m) (a ''comparaison'') \<or>
      js_includes (toLowerCase m) (a ''vs'') \<or>
      js_includes (toLowerCase m) (a ''versus'') \<or>
      js_includes (toLowerCase m) (a ''w260'') \<or>
      js_includes (toLowerCase m) (a ''w320'') \<or>
      test False ou_re (toLowerCase m))"
  "isProtocol (getSignals m) =
     (js_includes (toLowerCase m) (a ''protocole'') \<or>
      js_includes (toLowerCase m) (a ''planning'') \<or>
      js_includes (toLowerCase m) (a ''timeline'') \<or>
      js_includes (toLowerCase m) (a ''pointage'') \<or>
      js_includes (toLowerCase m) (a ''appr'' @ [234] @ a ''t'') \<or>
      js_includes (toLowerCase m) (a ''appret'') \<or>
      js_includes (toLowerCase m) (a ''frigo'') \<or>
      js_includes (toLowerCase m) (a ''48h'') \<or>
      js_includes (toLowerCase m) (a ''48 h'') \<or>
      js_includes (toLowerCase m) (a ''24h'') \<or>
      js_includes (toLowerCase m) (a ''24 h'') \<or>
      js_includes (toLowerCase m) (a ''72h'') \<or>
      js_includes (toLowerCase m) (a ''72 h'') \<or>
      test False hours_re (toLowerCase m) \<or>
      test False minutes_re (toLowerCase m))"
  by (simp_all only: getSignals_def Let_def signals.simps)


lemma lower_unit_canon: "lower_unit (canon c) = lower_unit c"
  by (auto simp: lower_unit_def canon_def)

lemma toLowerCase_canon: "toLowerCase (map canon s) = toLowerCase s"
  by (simp add: toLowerCase_def comp_def lower_unit_canon)

lemma getSignals_lower:
  "toLowerCase m1 = toLowerCase m2 \<Longrightarrow> getSignals m1 = getSignals m2"
  by (simp only: getSignals_def)

text \<open>
  Claim C9. \<open>getSignals\<close> is a total function of the text: every function it is
  made of is defined by recursion that terminates, and none has a failing case. The
  numbers it returns are the matched literals, with the first comma turned into a dot,
  converted to numbers, those that are not finite left out; so every number returned
  is finite. The signals depend on the text through its lower case only: two texts with
  the same lower case have the same signals, and putting the ASCII letters of a text in
  upper case changes none.
\<close>

theorem getSignals_total_finite_caseless:
  "(\<exists>sg. getSignals message = sg) \<and>
   nums (getSignals message) =
     filter isFinite (map (\<lambda>s. Number_of (replace s (a '','') (a ''.'')))
       (match_all False number_re (toLowerCase message) 0)) \<and>
   (\<forall>d \<in> set (nums (getSignals message)). isFinite d) \<and>
   (toLowerCase message = toLowerCase message' \<longrightarrow> getSignals message = getSignals message') \<and>
   getSignals (map canon message) = getSignals message"
proof -
  have fin: "\<forall>d \<in> set (nums (getSignals message)). isFinite d"
    unfolding signals_fields by simp
  have up: "getSignals (map canon message) = getSignals message"
    by (rule getSignals_lower) (rule toLowerCase_canon)
  show ?thesis
    using fin up signals_fields(2) [of message] getSignals_lower [of message message']
    by blast
qed

lemma lower_48h:
  "toLowerCase (a ''48H Au Frigo'') = a ''48h au frigo''"
  "toLowerCase (a ''48h au frigo'') = a ''48h au frigo''"
  by (simp_all add: toLowerCase_def char_defs)

theorem getSignals_total_finite_caseless_witness:
  "toLowerCase (a ''48H Au Frigo'') = toLowerCase (a ''48h au frigo'') \<and>
   getSignals (a ''48H Au Frigo'') = getSignals (a ''48h au frigo'') \<and>
   list_all isFinite (nums (getSignals (a ''48H Au Frigo'')))"
  using getSignals_total_finite_caseless [of "a ''48H Au Frigo''" "a ''48h au frigo''"]
  by (simp add: lower_48h list_all_iff)

section \<open>Properties of the synthesized charts\<close>



lemma length_uniq: "length (uniq xs) = card (set xs)"
  using length_remdups_card_conv [of "rev xs"] by (simp add: uniq_def)




lemma chart_fields:
  "get_prop (radar_chart tp) (a ''type'') = Some (JStr (a ''radar''))"
  "get_prop timeline_chart (a ''type'') = Some (JStr (a ''timeline''))"
  "get_prop (scatter_chart ns) (a ''type'') = Some (JStr (a ''scatter''))"
  "Option.bind (get_prop timeline_chart (a ''data'')) (\<lambda>d. get_prop d (a ''steps'')) =
     Some (JArr timeline_steps)"
  "Option.bind (get_prop (scatter_chart ns) (a ''data'')) (\<lambda>d. get_prop d (a ''points'')) =
     Some (JArr (scatter_points ns))"
  by (simp_all add: radar_chart_def timeline_chart_def scatter_chart_def a_def)


subsection \<open>Texts with numbers only\<close>
























text \<open>
  Claim C6. When the chart list of the envelope is not empty, the function returns an
  envelope with the same chart list, in every mode and for every text.
\<close>

theorem model_charts_kept:
  assumes "map_of fs (a ''charts'') = Some (JArr cs)" and "cs \<noteq> []"
  shows "get_prop (ensureGenericChartsAlways (JObj fs) sp message) (a ''charts'') = Some (JArr cs)"
  using assms by (rule ensure_keeps_charts)

theorem model_charts_kept_witness:
  "map_of [(a ''charts'', JArr [JNull])] (a ''charts'') = Some (JArr [JNull]) \<and> [JNull] \<noteq> [] \<and>
   get_prop (ensureGenericChartsAlways (JObj [(a ''charts'', JArr [JNull])]) APPROFONDIE scenario_text)
       (a ''charts'') = Some (JArr [JNull])"
  using model_charts_kept [of "[(a ''charts'', JArr [JNull])]" "[JNull]" APPROFONDIE scenario_text]
  by simp

subsection \<open>Protocol language\<close>

lemma timeline_minutes:
  "map (\<lambda>s. get_prop s (a ''minutes'')) timeline_steps =
     map (\<lambda>n. Some (jn n)) [15, 60, 10, 2880, 120]"
  by (simp add: timeline_steps_def a_def)

lemma frigo_protocol: "isProtocol (getSignals (a ''48h au frigo''))"
  unfolding signals_fields lower_48h by (simp add: a_def)

text \<open>
  Claim C7. In the mode \<open>APPROFONDIE\<close>, for a text with protocol language and from an
  envelope whose chart list is empty, the chart list starts with the radar chart and
  its second entry is the timeline chart, which has exactly five steps, of 15, 60, 10,
  2880 and 120 minutes, 3085 minutes in all.
\<close>

theorem timeline_second:
  assumes "map_of fs (a ''charts'') = Some (JArr [])"
    and "isProtocol (getSignals message)"
  shows "(\<exists>rest. get_prop (ensureGenericChartsAlways (JObj fs) APPROFONDIE message) (a ''charts'') =
             Some (JArr (radar_chart (topic (getSignals message)) # timeline_chart # rest))) \<and>
         get_prop timeline_chart (a ''type'') = Some (JStr (a ''timeline'')) \<and>
         Option.bind (get_prop timeline_chart (a ''data'')) (\<lambda>d. get_prop d (a ''steps'')) =
           Some (JArr timeline_steps) \<and>
         length timeline_steps = 5 \<and>
         map (\<lambda>s. get_prop s (a ''minutes'')) timeline_steps =
           map (\<lambda>n. Some (jn n)) [15, 60, 10, 2880, 120] \<and>
         sum_list [15, 60, 10, 2880, 120] = (3085 :: int)"
proof -
  have "array_or_empty (map_of fs (a ''charts'')) = []"
    using assms(1) by (simp add: array_or_empty_def)
  then have "\<exists>rest. get_prop (ensureGenericChartsAlways (JObj fs) APPROFONDIE message) (a ''charts'') =
             Some (JArr (radar_chart (topic (getSignals message)) # timeline_chart # rest))"
    using ensure_synthesized [of fs message] assms(2)
    by (simp add: auto_charts_eq)
  moreover have "length timeline_steps = 5"
    by (simp add: timeline_steps_def)
  ultimately show ?thesis
    using chart_fields(2,4) timeline_minutes by simp
qed

theorem timeline_second_witness:
  "map_of [(a ''charts'', JArr [])] (a ''charts'') = Some (JArr []) \<and>
   isProtocol (getSignals (a ''48h au frigo'')) \<and>
   (\<exists>rest. get_prop (ensureGenericChartsAlways (JObj [(a ''charts'', JArr [])]) APPROFONDIE
               (a ''48h au frigo'')) (a ''charts'') =
      Some (JArr (radar_chart (topic (getSignals (a ''48h au frigo''))) # timeline_chart # rest)))"
  using timeline_second [of "[(a ''charts'', JArr [])]" "a ''48h au frigo''"]
  by (simp add: frigo_protocol)

section \<open>Properties of the retrieval route\<close>

lemma starts_with_append: "starts_with (p @ v) p"
  by (induction p) simp_all

lemma js_includes_append: "js_includes (u @ p @ v) p"
proof (induction u)
  case Nil
  show ?case
    by (cases "p @ v") (use starts_with_append [of p v] in auto)
next
  case (Cons x u)
  then show ?case by simp
qed

lemma trim_middle:
  assumes "\<exists>c \<in> set u. \<not> is_space c" and "\<exists>c \<in> set v. \<not> is_space c"
  shows "trim (u @ x @ v) = dropWhile is_space u @ x @ rev (dropWhile is_space (rev v))"
proof -
  have 1: "dropWhile is_space (u @ x @ v) = dropWhile is_space u @ x @ v"
    using assms(1) by (auto simp: dropWhile_append1)
  have "\<exists>c \<in> set (rev v). \<not> is_space c"
    using assms(2) by simp
  then have 2: "dropWhile is_space (rev v @ rev x @ rev (dropWhile is_space u)) =
      dropWhile is_space (rev v) @ rev x @ rev (dropWhile is_space u)"
    by (auto simp: dropWhile_append1)
  show ?thesis
    by (simp add: trim_def 1 2)
qed

lemma prompt_includes_context:
  "js_includes (userPromptText rs contextText message) (retrievedContext rs)"
proof -
  have u: "\<exists>c \<in> set ([10] @ a ''DOCUMENTS EPPPN / LIVRES (extraits) :'' @ [10]). \<not> is_space c"
    by (simp add: a_def is_space_def)
  have v: "\<exists>c \<in> set ([10, 10] @ a ''Contexte utilisateur (optionnel) :'' @ [10] @
           (case contextText of None \<Rightarrow> a ''(non fourni)'' | Some t \<Rightarrow> t) @ [10, 10] @
           a ''Question :'' @ [10] @ message @ [10]). \<not> is_space c"
    by (simp add: a_def is_space_def)
  have "userPromptText rs contextText message =
      trim (([10] @ a ''DOCUMENTS EPPPN / LIVRES (extraits) :'' @ [10]) @ retrievedContext rs @
        ([10, 10] @ a ''Contexte utilisateur (optionnel) :'' @ [10] @
           (case contextText of None \<Rightarrow> a ''(non fourni)'' | Some t \<Rightarrow> t) @ [10, 10] @
           a ''Question :'' @ [10] @ message @ [10]))"
    by (simp add: userPromptText_def)
  then show ?thesis
    unfolding trim_middle [OF u v]
    using js_includes_append by simp
qed

lemma floor_above_fifth: "1 / 5 < similarity_floor"
  by (simp add: similarity_floor_def)

lemma retrieved_empty:
  assumes "\<forall>c \<in> set (case matches of None \<Rightarrow> [] | Some ms \<Rightarrow> ms). sim c < similarity_floor"
  shows "retrieved matches = []"
proof -
  have "filter (\<lambda>c. similarity_floor \<le> sim c) (case matches of None \<Rightarrow> [] | Some ms \<Rightarrow> ms) = []"
    using assms by (auto simp: filter_empty_conv)
  then show ?thesis
    by (simp add: retrieved_def)
qed

text \<open>
  Claim C8. Every row kept is a row of the result whose similarity is at least the
  floor (the double \<open>0.2\<close>, which is above one fifth), and at most six rows are
  kept; the count \<open>used\<close> of the answer is their number, and the prompt contains the
  excerpt section. When no row reaches the floor, and so too when the call failed and
  there is no result, the excerpt section is the fallback sentence, the prompt
  contains it and \<open>used\<close> is 0.
\<close>

theorem retrieval_floor_and_fallback:
  "(\<forall>c \<in> set (retrieved matches).
      c \<in> set (case matches of None \<Rightarrow> [] | Some ms \<Rightarrow> ms) \<and> similarity_floor \<le> sim c \<and> 1 / 5 < sim c) \<and>
   length (retrieved matches) \<le> 6 \<and>
   rag_used matches = length (retrieved matches) \<and>
   js_includes (userPromptText (retrieved matches) contextText message)
     (retrievedContext (retrieved matches)) \<and>
   ((\<forall>c \<in> set (case matches of None \<Rightarrow> [] | Some ms \<Rightarrow> ms). sim c < similarity_floor) \<longrightarrow>
      retrievedContext (retrieved matches) = no_excerpt \<and>
      js_includes (userPromptText (retrieved matches) contextText message) no_excerpt \<and>
      rag_used matches = 0)"
proof -
  have kept: "\<forall>c \<in> set (retrieved matches).
      c \<in> set (case matches of None \<Rightarrow> [] | Some ms \<Rightarrow> ms) \<and> similarity_floor \<le> sim c \<and> 1 / 5 < sim c"
  proof
    fix c assume "c \<in> set (retrieved matches)"
    then have "c \<in> set (filter (\<lambda>c. similarity_floor \<le> sim c)
        (case matches of None \<Rightarrow> [] | Some ms \<Rightarrow> ms))"
      unfolding retrieved_def by (rule in_set_takeD)
    then show "c \<in> set (case matches of None \<Rightarrow> [] | Some ms \<Rightarrow> ms) \<and> similarity_floor \<le> sim c \<and>
        1 / 5 < sim c"
      using floor_above_fifth by auto
  qed
  have six: "length (retrieved matches) \<le> 6"
    by (simp add: retrieved_def)
  have none: "retrievedContext (retrieved matches) = no_excerpt \<and>
      js_includes (userPromptText (retrieved matches) contextText message) no_excerpt \<and>
      rag_used matches = 0"
    if "\<forall>c \<in> set (case matches of None \<Rightarrow> [] | Some ms \<Rightarrow> ms). sim c < similarity_floor"
  proof -
    have e: "retrieved matches = []"
      using that by (rule retrieved_empty)
    have "retrievedContext [] = no_excerpt"
      by (simp add: retrievedContext_def)
    then show ?thesis
      using prompt_includes_context [of "[]" contextText message]
      by (simp add: e rag_used_def)
  qed
  have used: "rag_used matches = length (retrieved matches)"
    by (simp add: rag_used_def)
  from kept six used none prompt_includes_context [of "retrieved matches" contextText message]
  show ?thesis
    by blast
qed

theorem retrieval_floor_and_fallback_witness:
  "sim low_chunk < similarity_floor \<and>
   retrievedContext (retrieved (Some [low_chunk])) = no_excerpt \<and>
   js_includes (userPromptText (retrieved (Some [low_chunk])) None (a ''Question'')) no_excerpt \<and>
   rag_used (Some [low_chunk]) = 0 \<and>
   retrieved None = [] \<and>
   retrieved (Some [low_chunk, high_chunk]) = [high_chunk] \<and>
   similarity_floor \<le> sim high_chunk"
  using retrieval_floor_and_fallback [of "Some [low_chunk]" None "a ''Question''"]
  by (simp add: low_chunk_def high_chunk_def sim_def similarity_floor_def retrieved_def)

section \<open>Properties of the repair pass\<close>

lemma repair_calls:
  "fst (repair parse completion sp message raw) = [] \<or>
   fst (repair parse completion sp message raw) =
     [repairPrompt sp message (snd (extractGraphJsonBlock raw))]"
  by (cases "extractGraphJsonBlock raw")
    (auto simp: repair_def Let_def split: sum.splits option.splits)

lemma placeholder_fields:
  "get_prop placeholder (a ''title'') = Some (JStr (a ''Synth'' @ [232] @ a ''se''))"
  "get_prop placeholder (a ''confidence'') = Some (jn 40)"
  "get_prop placeholder (a ''charts'') = Some (JArr [])"
  "get_prop placeholder (a ''checklist'') = Some (JArr [])"
  "get_prop placeholder (a ''questions'') = Some (JArr [])"
  "get_prop placeholder (a ''recap_table'') =
     Some (JObj [(a ''columns'', JArr [JStr (a ''Levier''), JStr (a ''Action''), JStr (a ''Indicateur'')]),
                 (a ''rows'', JArr []),
                 (a ''note'', JStr (a ''JSON non r'' @ [233] @ a ''cup'' @ [233] @ a ''rable.''))])"
  by (simp_all add: placeholder_def recap_columns_def a_def)

text \<open>
  Claim C5. When the first output has no candidate, or one that \<open>JSON.parse\<close>
  refuses, the route sends exactly one more prompt to the completion service, the
  repair prompt; no run of the route sends more than one. If the second response is
  refused by \<open>JSON.parse\<close> too, the result is the text of the first output with
  the fixed placeholder envelope, and no error: title \<open>Synthese\<close> (with a grave
  accent), confidence 40, empty charts, checklist and questions, and a recap table
  with the three fixed columns, no rows and the fixed note.
\<close>

theorem one_repair_then_placeholder:
  assumes "extractGraphJsonBlock raw1 = (text1, json1)"
    and "json1 = None \<or> parse (the json1) = None"
  shows "fst (repair parse completion sp message raw1) = [repairPrompt sp message json1] \<and>
         (completion (repairPrompt sp message json1) = Inr out \<and>
          parse (trim (case out of None \<Rightarrow> [] | Some t \<Rightarrow> t)) = None \<longrightarrow>
            snd (repair parse completion sp message raw1) = Inr (text1, placeholder)) \<and>
         length (fst (repair parse' completion' sp' message' raw')) \<le> 1 \<and>
         get_prop placeholder (a ''title'') = Some (JStr (a ''Synth'' @ [232] @ a ''se'')) \<and>
         get_prop placeholder (a ''confidence'') = Some (jn 40) \<and>
         get_prop placeholder (a ''charts'') = Some (JArr []) \<and>
         get_prop placeholder (a ''checklist'') = Some (JArr []) \<and>
         get_prop placeholder (a ''questions'') = Some (JArr []) \<and>
         get_prop placeholder (a ''recap_table'') =
           Some (JObj [(a ''columns'', JArr [JStr (a ''Levier''), JStr (a ''Action''), JStr (a ''Indicateur'')]),
                       (a ''rows'', JArr []),
                       (a ''note'', JStr (a ''JSON non r'' @ [233] @ a ''cup'' @ [233] @ a ''rable.''))])"
proof -
  have g: "(if falsy json1 then None else parse (the json1)) = None"
    using assms(2) by (auto simp: falsy_def)
  have calls: "fst (repair parse completion sp message raw1) = [repairPrompt sp message json1]"
    using assms(1) g
    by (auto simp: repair_def Let_def maybe_truthy_def split: sum.splits option.splits)
  have second: "snd (repair parse completion sp message raw1) = Inr (text1, placeholder)"
    if "completion (repairPrompt sp message json1) = Inr out"
      and "parse (trim (case out of None \<Rightarrow> [] | Some t \<Rightarrow> t)) = None"
    using assms(1) g that
    by (simp add: repair_def Let_def maybe_truthy_def)
  have most: "length (fst (repair parse' completion' sp' message' raw')) \<le> 1"
    using repair_calls [of parse' completion' sp' message' raw'] by auto
  show ?thesis
    using calls second most placeholder_fields by blast
qed

text \<open>The witness: an output without markers, and a second response that is no JSON.\<close>

lemma no_block: "extractGraphJsonBlock (a ''Bonjour'') = (a ''Bonjour'', None)"
  by (simp add: extractGraphJsonBlock_def graph_json_re_def open_marker_def close_marker_def
      exec_def run_def char_defs trim_def)

theorem one_repair_then_placeholder_witness:
  "extractGraphJsonBlock (a ''Bonjour'') = (a ''Bonjour'', None) \<and>
   sample_completion (repairPrompt VITE (a ''Question'') None) = Inr (Some (a ''Voici: pas de JSON'')) \<and>
   sample_parse (trim (a ''Voici: pas de JSON'')) = None \<and>
   repair sample_parse sample_completion VITE (a ''Question'') (a ''Bonjour'') =
     ([repairPrompt VITE (a ''Question'') None], Inr (a ''Bonjour'', placeholder))"
proof -
  have p: "sample_parse (trim (a ''Voici: pas de JSON'')) = None"
    by (simp add: sample_parse_def trim_def char_defs)
  have c: "sample_completion (repairPrompt VITE (a ''Question'') None) = Inr (Some (a ''Voici: pas de JSON''))"
    by (simp add: sample_completion_def)
  show ?thesis
    using one_repair_then_placeholder [OF no_block, where parse = sample_parse
        and completion = sample_completion and sp = VITE and message = "a ''Question''"
        and out = "Some (a ''Voici: pas de JSON'')" and parse' = sample_parse
        and completion' = sample_completion and sp' = VITE and message' = "[]" and raw' = "[]"]
      p c no_block
    by (simp add: prod_eq_iff)
qed

section \<open>Properties of the extraction of the delimited block\<close>

lemma marker_lengths: "length open_marker = 12" "length close_marker = 13"
  by (simp_all add: open_marker_def close_marker_def a_def)

lemma graph_match_unfold:
  "re_match True s [Match graph_json_re] i None =
     (if opens_at s i
      then first_of
        (\<lambda>n. first_of
          (\<lambda>n'. first_of
            (\<lambda>n''. if closes_at s (i + 12 + n + n' + n'')
                   then Some (i + 12 + n + n' + n'' + 13, Some (i + 12 + n, i + 12 + n + n'))
                   else None)
            (rev [0..<Suc (run Space (drop (i + 12 + n + n') s))]))
          [0..<Suc (run AnyUnit (drop (i + 12 + n) s))])
        (rev [0..<Suc (run Space (drop (i + 12) s))])
      else None)"
  by (simp only: graph_json_re_def seq.simps re_match.simps marker_lengths opens_at_def closes_at_def)


subsection \<open>Searching\<close>

lemma first_of_None_iff: "first_of f xs = None \<longleftrightarrow> (\<forall>x \<in> set xs. f x = None)"
  by (induction xs) (auto split: option.splits)

lemma first_of_SomeD: "first_of f xs = Some y \<Longrightarrow> \<exists>x \<in> set xs. f x = Some y"
  by (induction xs) (auto split: option.splits)

lemma first_of_first:
  "(\<forall>x \<in> set us. f x = None) \<Longrightarrow> f x = Some y \<Longrightarrow> first_of f (us @ x # vs) = Some y"
  by (induction us) auto

lemma upt_split: "k < n \<Longrightarrow> [0..<n] = [0..<k] @ k # [Suc k..<n]"
  using upt_add_eq_append [of 0 k "n - k"] by (simp add: upt_conv_Cons)

lemma first_of_upt:
  assumes "k < n" "\<forall>x < k. f x = None" "f k = Some y"
  shows "first_of f [0..<n] = Some y"
  unfolding upt_split [OF assms(1)]
  by (rule first_of_first) (use assms in auto)

lemma first_of_rev_upt:
  assumes "f r = Some y"
  shows "first_of f (rev [0..<Suc r]) = Some y"
  using assms by simp

subsection \<open>Literals\<close>

lemma lit_at_length: "lit_at ci p s \<Longrightarrow> length p \<le> length s"
  by (induction ci p s rule: lit_at.induct) auto

lemma lit_at_append:
  "lit_at ci p (u @ v) =
     (if length p \<le> length u then lit_at ci p u
      else lit_at ci (take (length u) p) u \<and> lit_at ci (drop (length u) p) v)"
proof (induction u arbitrary: p)
  case Nil
  then show ?case by (cases p) auto
next
  case (Cons x u)
  then show ?case by (cases p) auto
qed

lemma lit_at_head: "lit_at True (y # ys) s \<Longrightarrow> s \<noteq> [] \<and> canon (hd s) = canon y"
  by (cases s) auto

lemma occurs_ci_drop: "lit_at True p (drop k s) \<Longrightarrow> k \<le> length s \<Longrightarrow> occurs_ci p s"
proof (induction s arbitrary: k)
  case Nil
  then show ?case by (cases p) auto
next
  case (Cons x s)
  then show ?case by (cases k) auto
qed

lemma straddle:
  assumes "same_ci w p" "0 < d" "d < length p" "lit_at True (drop d p) (w @ rest)"
  shows "canon (p ! d) = canon (p ! 0)"
proof -
  obtain p0 p' where p: "p = p0 # p'"
    using assms(3) by (cases p) auto
  have "lit_at True p w"
    using assms(1) by (simp add: same_ci_def)
  then have w: "w \<noteq> [] \<and> canon (hd w) = canon p0"
    unfolding p by (rule lit_at_head)
  have "drop d p = p ! d # drop (Suc d) p"
    using assms(3) by (simp add: Cons_nth_drop_Suc)
  then have "lit_at True (p ! d # drop (Suc d) p) (w @ rest)"
    using assms(4) by simp
  then have "canon (hd (w @ rest)) = canon (p ! d)"
    using lit_at_head by blast
  then show ?thesis
    using w p by simp
qed

lemma no_marker_across:
  assumes same: "same_ci w p"
    and none: "\<not> occurs_ci p u"
    and distinct_head: "\<forall>d \<in> set [1..<length p]. canon (p ! d) \<noteq> canon (p ! 0)"
    and k: "k < length u"
  shows "\<not> lit_at True p (drop k (u @ w @ rest))"
proof
  assume l: "lit_at True p (drop k (u @ w @ rest))"
  have d: "drop k (u @ w @ rest) = drop k u @ w @ rest"
    using k by simp
  show False
  proof (cases "length p \<le> length (drop k u)")
    case True
    then have "lit_at True p (drop k u)"
      using l lit_at_append [of True p "drop k u" "w @ rest"] unfolding d by simp
    then have "occurs_ci p u"
      using k by (intro occurs_ci_drop [of p k u]) auto
    then show False using none by simp
  next
    case False
    then have "lit_at True (drop (length (drop k u)) p) (w @ rest)"
      using l lit_at_append [of True p "drop k u" "w @ rest"] unfolding d by simp
    moreover have "0 < length (drop k u)" "length (drop k u) < length p"
      using k False by auto
    ultimately have "canon (p ! length (drop k u)) = canon (p ! 0)"
      using straddle [OF same] by blast
    moreover have "length (drop k u) \<in> set [1..<length p]"
      using k False by auto
    ultimately show False
      using distinct_head by blast
  qed
qed

lemma marker_heads:
  "\<forall>d \<in> set [1..<length open_marker]. canon (open_marker ! d) \<noteq> canon (open_marker ! 0)"
  "\<forall>d \<in> set [1..<length close_marker]. canon (close_marker ! d) \<noteq> canon (close_marker ! 0)"
  by (simp_all add: open_marker_def close_marker_def a_def canon_def)

lemma closes_not_space: "closes_at s q \<Longrightarrow> q < length s \<and> \<not> is_space (s ! q)"
proof -
  assume c: "closes_at s q"
  have "close_marker = 60 # tl close_marker"
    by (simp add: close_marker_def a_def)
  then have "lit_at True (60 # tl close_marker) (drop q s)"
    using c by (simp add: closes_at_def)
  then have h: "drop q s \<noteq> [] \<and> canon (hd (drop q s)) = canon 60"
    by (rule lit_at_head)
  then have q: "q < length s" by auto
  then have "hd (drop q s) = s ! q"
    by (simp add: hd_drop_conv_nth)
  then have "canon (s ! q) = 60"
    using h by (simp add: canon_def)
  then have "s ! q = 60"
    by (auto simp: canon_def split: if_splits)
  then show ?thesis
    using q by (simp add: is_space_def)
qed

subsection \<open>White space\<close>

lemma run_space_nth:
  "n < run Space xs \<Longrightarrow> n < length xs \<and> is_space (xs ! n)"
proof -
  assume n: "n < run Space xs"
  then have "n < length (takeWhile is_space xs)"
    by (simp add: run_def cong: takeWhile_cong)
  moreover have tw: "takeWhile (in_cls Space) xs = takeWhile is_space xs"
    by (rule takeWhile_cong) auto
  ultimately have "takeWhile is_space xs ! n \<in> set (takeWhile is_space xs)"
    by simp
  then have "is_space (takeWhile is_space xs ! n)"
    by (rule set_takeWhileD [THEN conjunct2])
  moreover have "takeWhile is_space xs ! n = xs ! n"
    using n by (simp add: run_def tw takeWhile_nth)
  moreover have "n < length xs"
    using n length_takeWhile_le [of "in_cls Space" xs] by (simp add: run_def)
  ultimately show ?thesis by simp
qed

lemma run_space_eq: "run Space xs = length (takeWhile is_space xs)"
proof -
  have "takeWhile (in_cls Space) xs = takeWhile is_space xs"
    by (rule takeWhile_cong) auto
  then show ?thesis by (simp add: run_def)
qed

lemma run_any: "run AnyUnit xs = length xs"
  unfolding run_def by (induction xs) auto

lemma run_space_stop:
  "k < length xs \<Longrightarrow> \<not> is_space (xs ! k) \<Longrightarrow> run Space xs \<le> k"
  using run_space_nth [of k xs] by (cases "k < run Space xs") auto

lemma run_space_prefix:
  assumes "\<forall>c \<in> set u. is_space c" "v = [] \<or> \<not> is_space (hd v)"
  shows "run Space (u @ v) = length u"
proof -
  have "takeWhile is_space (u @ v) = u @ takeWhile is_space v"
    using assms(1) by (simp add: takeWhile_append2)
  moreover have "takeWhile is_space v = []"
    using assms(2) by (cases v) auto
  ultimately show ?thesis by (simp add: run_space_eq)
qed

text \<open>The end of the expression: \<open>\s*\<close> and the closing marker, from index \<open>j\<close>.\<close>

lemma tail_match:
  "first_of (\<lambda>n. if closes_at s (j + n) then Some (j + n + 13, c) else None)
     (rev [0..<Suc (run Space (drop j s))]) =
   (if closes_at s (j + run Space (drop j s))
    then Some (j + run Space (drop j s) + 13, c) else None)"
proof -
  have "\<not> closes_at s (j + n)" if "n < run Space (drop j s)" for n
  proof
    assume "closes_at s (j + n)"
    then have "\<not> is_space (s ! (j + n))"
      using closes_not_space by blast
    moreover have n: "n < length (drop j s) \<and> is_space (drop j s ! n)"
      using that by (rule run_space_nth)
    moreover have "j \<le> length s"
      using n by (cases "j \<le> length s") auto
    then have "drop j s ! n = s ! (j + n)"
      by simp
    ultimately show False by simp
  qed
  then have "first_of (\<lambda>n. if closes_at s (j + n) then Some (j + n + 13, c) else None)
      (rev [0..<run Space (drop j s)]) = None"
    by (simp add: first_of_None_iff)
  then show ?thesis by simp
qed

subsection \<open>Trimming\<close>

lemma dropWhile_fixed: "xs = [] \<or> \<not> P (hd xs) \<Longrightarrow> dropWhile P xs = xs"
  by (cases xs) auto

lemma dropWhile_head: "dropWhile P xs = [] \<or> \<not> P (hd (dropWhile P xs))"
  using hd_dropWhile [of P xs] by blast

lemma trim_decomp_drop:
  "dropWhile is_space s = trim s @ rev (takeWhile is_space (rev (dropWhile is_space s)))"
proof -
  let ?d = "dropWhile is_space s"
  have "rev ?d = takeWhile is_space (rev ?d) @ dropWhile is_space (rev ?d)"
    by (simp only: takeWhile_dropWhile_id)
  then have "rev (rev ?d) = rev (takeWhile is_space (rev ?d) @ dropWhile is_space (rev ?d))"
    by (simp only:)
  then show ?thesis
    by (simp only: rev_rev_ident rev_append trim_def)
qed

lemma trim_decomp:
  "s = takeWhile is_space s @ trim s @ rev (takeWhile is_space (rev (dropWhile is_space s)))"
proof -
  have "s = takeWhile is_space s @ dropWhile is_space s"
    by (simp only: takeWhile_dropWhile_id)
  then show ?thesis
    using trim_decomp_drop [of s] by (simp only:)
qed

lemma trim_ends: "trim s = [] \<or> (\<not> is_space (hd (trim s)) \<and> \<not> is_space (last (trim s)))"
proof (cases "trim s = []")
  case True
  then show ?thesis by simp
next
  case False
  let ?d = "dropWhile is_space s"
  let ?u = "dropWhile is_space (rev ?d)"
  have t: "trim s = rev ?u" by (simp add: trim_def)
  have u: "?u \<noteq> []" using False t by simp
  then have "\<not> is_space (hd ?u)"
    using dropWhile_head [of is_space "rev ?d"] by blast
  then have l: "\<not> is_space (last (trim s))"
    using u by (simp add: t last_rev)
  have d: "?d = trim s @ rev (takeWhile is_space (rev ?d))"
    by (rule trim_decomp_drop)
  have "hd ?d = hd (trim s)"
    using False by (subst d) simp
  moreover have "?d \<noteq> []"
    using False by (subst d) simp
  ultimately have "\<not> is_space (hd (trim s))"
    using dropWhile_head [of is_space s] by auto
  then show ?thesis using l by simp
qed

lemma trim_trim: "trim (trim s) = trim s"
proof (cases "trim s = []")
  case True
  then show ?thesis by (simp only: trim_def [of "[]"] dropWhile.simps rev.simps)
next
  case False
  then have e: "\<not> is_space (hd (trim s))" "\<not> is_space (last (trim s))"
    using trim_ends [of s] by auto
  have 1: "dropWhile is_space (trim s) = trim s"
    using e(1) by (intro dropWhile_fixed) simp
  have "\<not> is_space (hd (rev (trim s)))"
    using e(2) False by (simp add: hd_rev)
  then have 2: "dropWhile is_space (rev (trim s)) = rev (trim s)"
    by (intro dropWhile_fixed) simp
  show ?thesis
    unfolding trim_def [of "trim s"] 1 2 by simp
qed

lemma trim_spaces: "trim s = [] \<Longrightarrow> \<forall>c \<in> set s. is_space c"
proof -
  assume "trim s = []"
  then have "s = takeWhile is_space s @ rev (takeWhile is_space (rev (dropWhile is_space s)))"
    using trim_decomp [of s] by simp
  then have "set s \<subseteq> set (takeWhile is_space s) \<union> set (takeWhile is_space (rev (dropWhile is_space s)))"
    by (metis set_append set_rev subset_refl)
  then show ?thesis
    by (auto dest: set_takeWhileD)
qed

lemma same_ci_prefix: "same_ci w p \<Longrightarrow> lit_at True p (w @ rest)"
  using lit_at_append [of True p w rest] by (simp add: same_ci_def)

lemma same_close_head:
  assumes "same_ci cls close_marker"
  shows "cls \<noteq> [] \<and> \<not> is_space (hd cls)"
proof -
  have "closes_at (cls @ []) 0"
    using same_ci_prefix [OF assms, of "[]"] by (simp add: closes_at_def)
  then have "0 < length (cls @ []) \<and> \<not> is_space ((cls @ []) ! 0)"
    by (rule closes_not_space)
  moreover have "cls \<noteq> []"
    using assms by (auto simp: same_ci_def marker_lengths)
  ultimately show ?thesis
    by (simp add: hd_conv_nth nth_append)
qed

lemma block_match:
  assumes so: "same_ci opn open_marker" and sc: "same_ci cls close_marker"
    and no_open: "\<not> occurs_ci open_marker pre" and no_close: "\<not> occurs_ci close_marker mid"
  shows "exec True graph_json_re (pre @ opn @ mid @ cls @ post) =
     Some (length pre, length pre + 12 + length mid + 13,
           Some (length pre + 12 + length (takeWhile is_space mid),
                 length pre + 12 + length (takeWhile is_space mid) + length (trim mid)))"
proof -
  define s where "s = pre @ opn @ mid @ cls @ post"
  define i where "i = length pre"
  define lead where "lead = takeWhile is_space mid"
  define t where "t = trim mid"
  define trail where "trail = rev (takeWhile is_space (rev (dropWhile is_space mid)))"
  define a0 where "a0 = i + 12 + length lead"
  define q0 where "q0 = i + 12 + length mid"
  define tailf where "tailf j c =
    first_of (\<lambda>n''. if closes_at s (j + n'') then Some (j + n'' + 13, c) else None)
      (rev [0..<Suc (run Space (drop j s))])" for j and c :: capture
  define G where "G b =
    first_of (\<lambda>n'. tailf (b + n') (Some (b, b + n'))) [0..<Suc (run AnyUnit (drop b s))]" for b
  have unfold: "re_match True s [Match graph_json_re] k None =
      (if opens_at s k
       then first_of (\<lambda>n. G (k + 12 + n)) (rev [0..<Suc (run Space (drop (k + 12) s))])
       else None)" for k
    unfolding G_def tailf_def by (rule graph_match_unfold)
  have lo: "length opn = 12" and lc: "length cls = 13"
    using so sc by (simp_all add: same_ci_def marker_lengths)
  have mid: "mid = lead @ t @ trail"
    unfolding lead_def t_def trail_def by (rule trim_decomp)
  have lead_sp: "\<forall>c \<in> set lead. is_space c" and trail_sp: "\<forall>c \<in> set trail. is_space c"
    unfolding lead_def trail_def by (auto dest: set_takeWhileD)
  have cls_head: "cls \<noteq> [] \<and> \<not> is_space (hd cls)"
    using sc by (rule same_close_head)
  have t_ends: "t = [] \<or> (\<not> is_space (hd t) \<and> \<not> is_space (last t))"
    unfolding t_def by (rule trim_ends)
  have t_empty: "trail = []" if "t = []"
  proof -
    have "\<forall>c \<in> set mid. is_space c"
      using that unfolding t_def by (rule trim_spaces)
    then have "dropWhile is_space mid = []"
      by simp
    then show ?thesis
      unfolding trail_def by (simp only: rev.simps takeWhile.simps)
  qed
  have d1: "drop (i + 12) s = mid @ cls @ post"
    by (simp add: s_def i_def lo)
  have d2: "drop (a0 + n) s = drop n t @ trail @ cls @ post" if "n \<le> length t" for n
  proof -
    have e: "a0 + n = length lead + n + (i + 12)"
      by (simp add: a0_def)
    have "drop (a0 + n) s = drop (length lead + n) (drop (i + 12) s)"
      unfolding e by (simp only: drop_drop)
    also have "\<dots> = drop (length lead + n) (lead @ t @ trail @ cls @ post)"
      using mid by (simp add: d1)
    also have "\<dots> = drop n t @ trail @ cls @ post"
      using that by simp
    finally show ?thesis .
  qed
  have q0: "q0 = a0 + length t + length trail"
    using mid by (simp add: q0_def a0_def)
  have d3: "drop q0 s = cls @ post"
    using d2 [of "length t"] d1 by (simp add: q0_def s_def i_def lo)
  have opens: "opens_at s i"
    using same_ci_prefix [OF so, of "mid @ cls @ post"] by (simp add: opens_at_def s_def i_def)
  have closes: "closes_at s q0"
    using same_ci_prefix [OF sc, of post] by (simp add: closes_at_def d3)
  have NO: "\<not> opens_at s k" if "k < i" for k
    using no_marker_across [OF so no_open marker_heads(1), of k "mid @ cls @ post"] that
    by (simp add: opens_at_def s_def i_def)
  have NC: "\<not> closes_at s (i + 12 + k)" if "k < length mid" for k
  proof -
    have "drop (i + 12 + k) s = drop k (mid @ cls @ post)"
      using d1 by (metis add.commute drop_drop)
    then show ?thesis
      using no_marker_across [OF sc no_close marker_heads(2), of k post] that
      by (simp add: closes_at_def)
  qed
  have R0: "run Space (drop (i + 12) s) = length lead"
  proof -
    have "t @ trail @ cls @ post = [] \<or> \<not> is_space (hd (t @ trail @ cls @ post))"
    proof (cases "t = []")
      case True
      then show ?thesis using t_empty cls_head by simp
    next
      case False
      then show ?thesis using t_ends by simp
    qed
    then have "run Space (lead @ t @ trail @ cls @ post) = length lead"
      using lead_sp by (intro run_space_prefix) auto
    then show ?thesis using mid by (simp add: d1)
  qed
  have Rt: "run Space (drop (a0 + length t) s) = length trail"
  proof -
    have "run Space (trail @ cls @ post) = length trail"
      using trail_sp cls_head by (intro run_space_prefix) auto
    then show ?thesis by (simp add: d2)
  qed
  have early: "tailf (a0 + n) c = None" if "n < length t" for n c
  proof -
    let ?r = "run Space (drop (a0 + n) s)"
    have ne: "t \<noteq> []" using that by auto
    let ?k = "length t - 1 - n"
    have k: "?k < length (drop n t)"
      using that by simp
    have nk: "n + ?k = length t - 1"
      using that by simp
    have "(drop n t @ trail @ cls @ post) ! ?k = drop n t ! ?k"
      using k by (simp only: nth_append if_True)
    also have "\<dots> = t ! (n + ?k)"
      using that by (intro nth_drop) simp
    also have "\<dots> = t ! (length t - 1)"
      by (simp only: nk)
    also have "\<dots> = last t"
      using ne by (simp add: last_conv_nth)
    finally have "\<not> is_space ((drop n t @ trail @ cls @ post) ! ?k)"
      using t_ends ne by simp
    moreover have "?k < length (drop n t @ trail @ cls @ post)"
      using that by simp
    ultimately have "run Space (drop n t @ trail @ cls @ post) \<le> ?k"
      by (rule run_space_stop [rotated])
    then have r: "?r \<le> ?k"
      using that by (simp add: d2)
    have eq: "a0 + n + ?r = i + 12 + (length lead + n + ?r)"
      by (simp add: a0_def)
    have "length lead + n + ?r < length mid"
    proof -
      have "length mid = length (lead @ t @ trail)"
        using mid by (rule arg_cong)
      then have "length mid = length lead + length t + length trail"
        by simp
      then show ?thesis
        using r that by linarith
    qed
    then have "\<not> closes_at s (i + 12 + (length lead + n + ?r))"
      by (rule NC)
    then have "\<not> closes_at s (a0 + n + ?r)"
      unfolding eq .
    then show ?thesis
      unfolding tailf_def tail_match by simp
  qed
  have late: "tailf (a0 + length t) c = Some (q0 + 13, c)" for c
    unfolding tailf_def tail_match using closes by (simp add: Rt q0)
  have G: "G a0 = Some (q0 + 13, Some (a0, a0 + length t))"
  proof -
    have "length t < Suc (run AnyUnit (drop a0 s))"
      using d2 [of 0] by (simp add: run_any)
    then show ?thesis
      unfolding G_def
      by (rule first_of_upt) (use early late in auto)
  qed
  have here: "re_match True s [Match graph_json_re] i None =
      Some (q0 + 13, Some (a0, a0 + length t))"
  proof -
    have "first_of (\<lambda>n. G (i + 12 + n)) (rev [0..<Suc (length lead)]) =
        Some (q0 + 13, Some (a0, a0 + length t))"
      by (rule first_of_rev_upt) (use G in \<open>simp add: a0_def\<close>)
    then show ?thesis
      unfolding unfold R0 using opens by (simp only: if_True)
  qed
  have before: "re_match True s [Match graph_json_re] k None = None" if "k < i" for k
    unfolding unfold using NO [OF that] by simp
  have "first_of (\<lambda>k. map_option (Pair k) (re_match True s [Match graph_json_re] k None))
      [0..<Suc (length s)] = Some (i, q0 + 13, Some (a0, a0 + length t))"
    by (rule first_of_upt [of i]) (use here before in \<open>auto simp: s_def i_def\<close>)
  then show ?thesis
    unfolding exec_def s_def [symmetric]
    by (simp add: i_def q0_def a0_def lead_def t_def)
qed

subsection \<open>No block\<close>

lemma match_sound:
  assumes "re_match True s [Match graph_json_re] i None = Some y"
  shows "opens_at s i \<and> (\<exists>q. i + 12 \<le> q \<and> closes_at s q)"
proof -
  have o: "opens_at s i"
    using assms unfolding graph_match_unfold by (simp split: if_splits)
  then obtain n where "first_of
          (\<lambda>n'. first_of
            (\<lambda>n''. if closes_at s (i + 12 + n + n' + n'')
                   then Some (i + 12 + n + n' + n'' + 13, Some (i + 12 + n, i + 12 + n + n'))
                   else None)
            (rev [0..<Suc (run Space (drop (i + 12 + n + n') s))]))
          [0..<Suc (run AnyUnit (drop (i + 12 + n) s))] = Some y"
    using assms unfolding graph_match_unfold
    by (simp only: if_True) (blast dest: first_of_SomeD)
  then obtain n' where "first_of
            (\<lambda>n''. if closes_at s (i + 12 + n + n' + n'')
                   then Some (i + 12 + n + n' + n'' + 13, Some (i + 12 + n, i + 12 + n + n'))
                   else None)
            (rev [0..<Suc (run Space (drop (i + 12 + n + n') s))]) = Some y"
    by (blast dest: first_of_SomeD)
  then obtain n'' where "(if closes_at s (i + 12 + n + n' + n'')
                   then Some (i + 12 + n + n' + n'' + 13, Some (i + 12 + n, i + 12 + n + n'))
                   else None) = Some y"
    by (blast dest: first_of_SomeD)
  then have "closes_at s (i + 12 + n + n' + n'')"
    by (simp split: if_splits)
  moreover have "i + 12 \<le> i + 12 + n + n' + n''"
    by simp
  ultimately show ?thesis
    using o by blast
qed

lemma block_parts:
  assumes "opens_at s i" "closes_at s q" "i + 12 \<le> q"
  shows "\<exists>pre opn mid cls post. s = pre @ opn @ mid @ cls @ post \<and>
           same_ci opn open_marker \<and> same_ci cls close_marker"
proof -
  have li: "i + 12 \<le> length s"
    using assms(1) lit_at_length [of True open_marker "drop i s"]
    by (simp add: opens_at_def marker_lengths)
  have lq: "q + 13 \<le> length s"
    using assms(2) lit_at_length [of True close_marker "drop q s"]
    by (simp add: closes_at_def marker_lengths)
  let ?pre = "take i s" and ?opn = "take 12 (drop i s)"
  let ?mid = "take (q - (i + 12)) (drop (i + 12) s)"
  let ?cls = "take 13 (drop q s)" and ?post = "drop (q + 13) s"
  have 1: "s = ?pre @ drop i s" by simp
  have 2: "drop i s = ?opn @ drop (i + 12) s"
    by (metis add.commute append_take_drop_id drop_drop)
  have 3: "drop (i + 12) s = ?mid @ drop q s"
    using assms(3) by (metis add.commute append_take_drop_id drop_drop le_add_diff_inverse)
  have 4: "drop q s = ?cls @ ?post"
    by (metis add.commute append_take_drop_id drop_drop)
  have s: "s = ?pre @ ?opn @ ?mid @ ?cls @ ?post"
    using 1 2 3 4 by metis
  have "lit_at True open_marker ?opn"
    using assms(1) lit_at_append [of True open_marker ?opn "drop (i + 12) s"] 2 li
    by (simp add: opens_at_def marker_lengths)
  then have o: "same_ci ?opn open_marker"
    using li by (simp add: same_ci_def marker_lengths)
  have "lit_at True close_marker ?cls"
    using assms(2) lit_at_append [of True close_marker ?cls ?post] 4 lq
    by (simp add: closes_at_def marker_lengths)
  then have c: "same_ci ?cls close_marker"
    using lq by (simp add: same_ci_def marker_lengths)
  show ?thesis
    using s o c by blast
qed

lemma no_block_exec:
  assumes "\<not> (\<exists>pre opn mid cls post. s = pre @ opn @ mid @ cls @ post \<and>
             same_ci opn open_marker \<and> same_ci cls close_marker)"
  shows "exec True graph_json_re s = None"
proof -
  have "re_match True s [Match graph_json_re] i None = None" for i
  proof (cases "re_match True s [Match graph_json_re] i None")
    case None
    then show ?thesis .
  next
    case (Some y)
    then have "opens_at s i \<and> (\<exists>q. i + 12 \<le> q \<and> closes_at s q)"
      by (rule match_sound)
    then show ?thesis
      using block_parts [of s i] assms by blast
  qed
  then show ?thesis
    by (simp add: exec_def first_of_None_iff del: upt_Suc)
qed

subsection \<open>Removing the block\<close>

lemma starts_with_split: "starts_with s p \<Longrightarrow> \<exists>rest. s = p @ rest"
  by (induction s p rule: starts_with.induct) auto

lemma replace_first:
  assumes "p \<noteq> []" "\<forall>k < length u. \<not> starts_with (drop k (u @ p @ v)) p"
  shows "replace (u @ p @ v) p r = u @ r @ v"
  using assms(2)
proof (induction u)
  case Nil
  obtain x xs where "p @ v = x # xs"
    using assms(1) by (cases "p @ v") auto
  then show ?case
    using starts_with_append [of p v]
    by (metis append_Nil append_eq_conv_conj replace.simps(2))
next
  case (Cons y u)
  have "\<not> starts_with ((y # u) @ p @ v) p"
    using Cons.prems by (metis drop0 length_greater_0_conv list.discI)
  moreover have "\<forall>k < length u. \<not> starts_with (drop k (u @ p @ v)) p"
  proof (intro allI impI)
    fix k assume "k < length u"
    then have "\<not> starts_with (drop (Suc k) ((y # u) @ p @ v)) p"
      using Cons.prems by (metis Suc_less_eq length_Cons)
    then show "\<not> starts_with (drop k (u @ p @ v)) p"
      by simp
  qed
  ultimately show ?case
    using Cons.IH by simp
qed

lemma block_removed:
  assumes so: "same_ci opn open_marker" and no_open: "\<not> occurs_ci open_marker pre"
  shows "replace (pre @ opn @ mid @ cls @ post) (opn @ mid @ cls) [] = pre @ post"
proof -
  have ne: "opn @ mid @ cls \<noteq> []"
    using so by (auto simp: same_ci_def marker_lengths)
  have "\<not> starts_with (drop k (pre @ opn @ mid @ cls @ post)) (opn @ mid @ cls)" if "k < length pre" for k
  proof
    assume "starts_with (drop k (pre @ opn @ mid @ cls @ post)) (opn @ mid @ cls)"
    then obtain rest where "drop k (pre @ opn @ mid @ cls @ post) = opn @ (mid @ cls @ rest)"
      using starts_with_split by fastforce
    then have "lit_at True open_marker (drop k (pre @ opn @ mid @ cls @ post))"
      using same_ci_prefix [OF so, of "mid @ cls @ rest"] by simp
    then show False
      using no_marker_across [OF so no_open marker_heads(1) that, of "mid @ cls @ post"] by simp
  qed
  then have "replace (pre @ (opn @ mid @ cls) @ post) (opn @ mid @ cls) [] = pre @ [] @ post"
    by (intro replace_first [OF ne]) simp
  then show ?thesis by simp
qed

lemma extract_block:
  assumes so: "same_ci opn open_marker" and sc: "same_ci cls close_marker"
    and no_open: "\<not> occurs_ci open_marker pre" and no_close: "\<not> occurs_ci close_marker mid"
  shows "extractGraphJsonBlock (pre @ opn @ mid @ cls @ post) =
     (if trim mid = [] then (trim (pre @ opn @ mid @ cls @ post), None)
      else (trim (pre @ post), Some (trim mid)))"
proof -
  let ?s = "pre @ opn @ mid @ cls @ post"
  let ?lead = "takeWhile is_space mid"
  let ?trail = "rev (takeWhile is_space (rev (dropWhile is_space mid)))"
  have lo: "length opn = 12" and lc: "length cls = 13"
    using so sc by (simp_all add: same_ci_def marker_lengths)
  have mid: "mid = ?lead @ trim mid @ ?trail"
    by (rule trim_decomp)
  have m0: "slice ?s (length pre) (length pre + 12 + length mid + 13) = opn @ mid @ cls"
    by (simp add: slice_def lo lc)
  have "drop (length pre + 12 + length ?lead) ?s = drop (length ?lead) (mid @ cls @ post)"
    by (simp add: lo)
  also have "\<dots> = drop (length ?lead) (?lead @ trim mid @ ?trail @ cls @ post)"
    using mid by (metis append.assoc)
  also have "\<dots> = trim mid @ ?trail @ cls @ post"
    by simp
  finally have "drop (length pre + 12 + length ?lead) ?s = trim mid @ ?trail @ cls @ post" .
  then have m1: "slice ?s (length pre + 12 + length ?lead)
      (length pre + 12 + length ?lead + length (trim mid)) = trim mid"
    by (simp add: slice_def)
  have "extractGraphJsonBlock ?s =
      (if trim mid = [] then (trim ?s, None)
       else (trim (replace ?s (opn @ mid @ cls) []), Some (trim (trim mid))))"
    unfolding extractGraphJsonBlock_def block_match [OF so sc no_open no_close]
    by (simp only: option.case prod.case Let_def m0 m1)
  then show ?thesis
    by (simp only: block_removed [OF so no_open] trim_trim)
qed

lemma extract_none:
  assumes "\<not> (\<exists>pre opn mid cls post. raw = pre @ opn @ mid @ cls @ post \<and>
             same_ci opn open_marker \<and> same_ci cls close_marker)"
  shows "extractGraphJsonBlock raw = (trim raw, None)"
  unfolding extractGraphJsonBlock_def no_block_exec [OF assms] by simp

text \<open>
  Claim C4, as the code has it. Take an output in which a first delimited block is
  found: an opening marker that no opening marker precedes, the content up to the next
  closing marker, and that closing marker (the markers in any case of their letters).
  When the content is not empty or white space only, the narrative text is the output
  with the block removed, trimmed, and the candidate is the content, trimmed. When the
  content is empty or white space only, the candidate is \<open>null\<close>. When the output
  has no opening marker followed by a closing marker, the candidate is \<open>null\<close> and
  the narrative text is the whole output, trimmed.
\<close>

theorem extract_first_block:
  assumes "same_ci opn open_marker" and "same_ci cls close_marker"
    and "\<not> occurs_ci open_marker pre" and "\<not> occurs_ci close_marker mid"
  shows "(trim mid \<noteq> [] \<longrightarrow>
            extractGraphJsonBlock (pre @ opn @ mid @ cls @ post) =
              (trim (pre @ post), Some (trim mid))) \<and>
         (trim mid = [] \<longrightarrow> snd (extractGraphJsonBlock (pre @ opn @ mid @ cls @ post)) = None) \<and>
         (\<not> (\<exists>pre' opn' mid' cls' post'. raw = pre' @ opn' @ mid' @ cls' @ post' \<and>
                same_ci opn' open_marker \<and> same_ci cls' close_marker) \<longrightarrow>
            extractGraphJsonBlock raw = (trim raw, None))"
  using extract_block [OF assms, of post] extract_none [of raw]
  by simp

lemma marker_samples:
  "same_ci (a ''<GRAPH_JSON>'') open_marker"
  "same_ci (a ''<graph_json>'') open_marker"
  "same_ci (a ''</GRAPH_JSON>'') close_marker"
  by (simp_all add: same_ci_def open_marker_def close_marker_def a_def canon_def)

lemma no_markers:
  "\<not> occurs_ci open_marker (a ''Bonjour '')"
  "\<not> occurs_ci open_marker (a ''ok '')"
  "\<not> occurs_ci open_marker []"
  "\<not> occurs_ci close_marker (a '' {\"title\":\"T\"} '')"
  "\<not> occurs_ci close_marker (a '' '')"
  "\<not> occurs_ci close_marker (a ''{\"a\":\"'')"
  by (simp_all add: open_marker_def close_marker_def a_def canon_def)

lemma trim_samples:
  "trim (a '' {\"title\":\"T\"} '') = a ''{\"title\":\"T\"}''"
  "trim (a ''Bonjour '' @ a '' fin'') = a ''Bonjour  fin''"
  "trim (a '' '') = []"
  by (simp_all add: trim_def a_def is_space_def)

lemma no_block_short:
  "\<not> (\<exists>pre opn mid cls post. a ''Bonjour'' = pre @ opn @ mid @ cls @ post \<and>
        same_ci opn open_marker \<and> same_ci cls close_marker)"
proof
  assume "\<exists>pre opn mid cls post. a ''Bonjour'' = pre @ opn @ mid @ cls @ post \<and>
        same_ci opn open_marker \<and> same_ci cls close_marker"
  then obtain pre opn mid cls post where
    e: "a ''Bonjour'' = pre @ opn @ mid @ cls @ post" and o: "same_ci opn open_marker"
    by blast
  have "length (a ''Bonjour'') = length (pre @ opn @ mid @ cls @ post)"
    using e by (rule arg_cong)
  moreover have "length opn = 12"
    using o by (simp add: same_ci_def marker_lengths)
  ultimately show False
    by (simp add: a_def)
qed

theorem extract_first_block_witness:
  "same_ci (a ''<graph_json>'') open_marker \<and> same_ci (a ''</GRAPH_JSON>'') close_marker \<and>
   \<not> occurs_ci open_marker (a ''Bonjour '') \<and>
   \<not> occurs_ci close_marker (a '' {\"title\":\"T\"} '') \<and>
   trim (a '' {\"title\":\"T\"} '') \<noteq> [] \<and>
   extractGraphJsonBlock
     (a ''Bonjour '' @ a ''<graph_json>'' @ a '' {\"title\":\"T\"} '' @ a ''</GRAPH_JSON>'' @ a '' fin'') =
     (a ''Bonjour  fin'', Some (a ''{\"title\":\"T\"}'')) \<and>
   \<not> occurs_ci open_marker (a ''ok '') \<and> \<not> occurs_ci close_marker (a '' '') \<and>
   trim (a '' '') = [] \<and>
   snd (extractGraphJsonBlock (a ''ok '' @ a ''<graph_json>'' @ a '' '' @ a ''</GRAPH_JSON>'' @ [])) = None \<and>
   extractGraphJsonBlock (a ''Bonjour'') = (trim (a ''Bonjour''), None)"
  using extract_first_block [OF marker_samples(2,3) no_markers(1,4), of "a '' fin''" "a ''Bonjour''"]
    extract_first_block [OF marker_samples(2,3) no_markers(2,5), of "[]" "a ''Bonjour''"]
    no_block_short
  by (simp add: marker_samples no_markers trim_samples) (simp add: a_def)

lemmas extract_defs = extractGraphJsonBlock_def graph_json_re_def open_marker_def
  close_marker_def exec_def run_def slice_def trim_def

lemma blank_block:
  "extractGraphJsonBlock (a ''ok <GRAPH_JSON> </GRAPH_JSON>'') =
     (a ''ok <GRAPH_JSON> </GRAPH_JSON>'', None)"
  by (simp add: extract_defs char_defs)

text \<open>
  Claim C4 fails as it is stated: for a block whose content is one space, the
  candidate is \<open>null\<close> and the narrative text still holds the block.
\<close>

theorem extract_first_block_counterexample:
  "same_ci (a ''<GRAPH_JSON>'') open_marker \<and> same_ci (a ''</GRAPH_JSON>'') close_marker \<and>
   \<not> occurs_ci open_marker (a ''ok '') \<and> \<not> occurs_ci close_marker (a '' '') \<and>
   a ''ok '' @ a ''<GRAPH_JSON>'' @ a '' '' @ a ''</GRAPH_JSON>'' @ [] =
     a ''ok <GRAPH_JSON> </GRAPH_JSON>'' \<and>
   extractGraphJsonBlock (a ''ok <GRAPH_JSON> </GRAPH_JSON>'') =
     (a ''ok <GRAPH_JSON> </GRAPH_JSON>'', None) \<and>
   (a ''ok <GRAPH_JSON> </GRAPH_JSON>'', None) \<noteq> (trim (a ''ok '' @ []), Some (trim (a '' '')))"
  by (simp add: marker_samples no_markers blank_block) (simp add: a_def)

text \<open>
  Claim C3, as the code has it. Take an output made of prose around one delimited
  block, where no opening marker occurs in the prose before the block and the content
  of the block holds no closing marker (the markers in any case of their letters). If
  the trimmed content is a JSON text that \<open>JSON.parse\<close> reads as an object, the
  route keeps the prose without the block, trimmed, as narrative text and that object
  as envelope, and sends no repair prompt.
\<close>

theorem repair_round_trip:
  assumes "same_ci opn open_marker" and "same_ci cls close_marker"
    and "\<not> occurs_ci open_marker pre" and "\<not> occurs_ci close_marker mid"
    and "trim mid \<noteq> []"
    and "parse (trim mid) = Some (JObj fs)"
  shows "repair parse completion sp message (pre @ opn @ mid @ cls @ post) =
           ([], Inr (trim (pre @ post), JObj fs))"
  using extract_block [OF assms(1-4), of post] assms(5,6)
  by (simp add: repair_def Let_def falsy_def maybe_truthy_def)

lemma sample_parse_title:
  "sample_parse (a ''{\"title\":\"T\"}'') = Some (JObj [(a ''title'', JStr (a ''T''))])"
  by (simp add: sample_parse_def)

theorem repair_round_trip_witness:
  "same_ci (a ''<graph_json>'') open_marker \<and> same_ci (a ''</GRAPH_JSON>'') close_marker \<and>
   \<not> occurs_ci open_marker (a ''Bonjour '') \<and>
   \<not> occurs_ci close_marker (a '' {\"title\":\"T\"} '') \<and>
   trim (a '' {\"title\":\"T\"} '') \<noteq> [] \<and>
   sample_parse (trim (a '' {\"title\":\"T\"} '')) = Some (JObj [(a ''title'', JStr (a ''T''))]) \<and>
   repair sample_parse sample_completion APPROFONDIE (a ''Question'')
     (a ''Bonjour '' @ a ''<graph_json>'' @ a '' {\"title\":\"T\"} '' @ a ''</GRAPH_JSON>'' @ a '' fin'') =
     ([], Inr (a ''Bonjour  fin'', JObj [(a ''title'', JStr (a ''T''))]))"
proof -
  have ne: "trim (a '' {\"title\":\"T\"} '') \<noteq> []"
    unfolding trim_samples by (simp add: a_def)
  have p: "sample_parse (trim (a '' {\"title\":\"T\"} '')) = Some (JObj [(a ''title'', JStr (a ''T''))])"
    unfolding trim_samples by (rule sample_parse_title)
  show ?thesis
    using repair_round_trip [where parse = sample_parse and completion = sample_completion
        and sp = APPROFONDIE and message = "a ''Question''" and post = "a '' fin''",
        OF marker_samples(2,3) no_markers(1,4) ne p]
      marker_samples no_markers ne p
    by (simp only: trim_samples simp_thms)
qed

lemma nested_block:
  "extractGraphJsonBlock (a ''<GRAPH_JSON>{\"a\":\"</GRAPH_JSON>\"}</GRAPH_JSON>'') =
     (a ''\"}</GRAPH_JSON>'', Some (a ''{\"a\":\"''))"
  by (simp add: extract_defs char_defs)

lemma sample_parse_nested:
  "sample_parse (a ''{\"a\":\"</GRAPH_JSON>\"}'') = Some (JObj [(a ''a'', JStr (a ''</GRAPH_JSON>''))])"
  "sample_parse (a ''{\"a\":\"'') = None"
  by (simp_all add: sample_parse_def a_def)

text \<open>
  Claim C3 fails as it is stated: a JSON object with the closing marker inside one of
  its strings is cut at that marker. The candidate is the beginning of the object,
  which is no JSON, the narrative text is the rest of the object, and the repair
  prompt is sent.
\<close>

theorem repair_round_trip_counterexample:
  "sample_parse (a ''{\"a\":\"</GRAPH_JSON>\"}'') = Some (JObj [(a ''a'', JStr (a ''</GRAPH_JSON>''))]) \<and>
   [] @ a ''<GRAPH_JSON>'' @ a ''{\"a\":\"</GRAPH_JSON>\"}'' @ a ''</GRAPH_JSON>'' @ [] =
     a ''<GRAPH_JSON>{\"a\":\"</GRAPH_JSON>\"}</GRAPH_JSON>'' \<and>
   extractGraphJsonBlock (a ''<GRAPH_JSON>{\"a\":\"</GRAPH_JSON>\"}</GRAPH_JSON>'') =
     (a ''\"}</GRAPH_JSON>'', Some (a ''{\"a\":\"'')) \<and>
   sample_parse (a ''{\"a\":\"'') = None \<and>
   repair sample_parse sample_completion VITE (a ''Question'')
     (a ''<GRAPH_JSON>{\"a\":\"</GRAPH_JSON>\"}</GRAPH_JSON>'') =
     ([repairPrompt VITE (a ''Question'') (Some (a ''{\"a\":\"''))],
      Inr (a ''\"}</GRAPH_JSON>'', placeholder))"
proof -
  have cat: "[] @ a ''<GRAPH_JSON>'' @ a ''{\"a\":\"</GRAPH_JSON>\"}'' @ a ''</GRAPH_JSON>'' @ [] =
     a ''<GRAPH_JSON>{\"a\":\"</GRAPH_JSON>\"}</GRAPH_JSON>''"
    by (simp add: a_def)
  have j: "\<not> falsy (Some (a ''{\"a\":\"''))"
    by (simp add: falsy_def a_def)
  have t: "sample_parse (trim (a ''Voici: pas de JSON'')) = None"
    by (simp add: sample_parse_def trim_def char_defs)
  have "repair sample_parse sample_completion VITE (a ''Question'')
     (a ''<GRAPH_JSON>{\"a\":\"</GRAPH_JSON>\"}</GRAPH_JSON>'') =
     ([repairPrompt VITE (a ''Question'') (Some (a ''{\"a\":\"''))],
      Inr (a ''\"}</GRAPH_JSON>'', placeholder))"
    unfolding repair_def nested_block
    using j t by (simp add: Let_def sample_parse_nested maybe_truthy_def sample_completion_def)
  then show ?thesis
    using cat nested_block sample_parse_nested by simp
qed

section \<open>Properties of the middleware\<close>

lemma split_no_sep: "p \<in> set (split c s) \<Longrightarrow> c \<notin> set p"
proof (induction s arbitrary: p)
  case Nil
  then show ?case by simp
next
  case (Cons x xs)
  show ?case
  proof (cases "x = c")
    case True
    with Cons show ?thesis by auto
  next
    case False
    obtain q qs where q: "split c xs = q # qs"
      by (cases "split c xs") (auto split: if_splits list.splits elim: split.elims)
    from Cons.prems False q have "p = x # q \<or> p \<in> set qs" by auto
    then show ?thesis
    proof
      assume "p = x # q"
      moreover have "c \<notin> set q" using Cons.IH [of q] q by simp
      ultimately show ?thesis using False by auto
    next
      assume "p \<in> set qs"
      then show ?thesis using Cons.IH [of p] q by simp
    qed
  qed
qed

lemma elem_at_in_set: "elem_at xs i = Some x \<Longrightarrow> x \<in> set xs"
  by (auto simp: elem_at_def split: if_splits)

text \<open>
  Claim C10. When the configured password contains a colon, the middleware answers
  every request with the 401 challenge, whatever the configured user, the
  \<open>authorization\<close> header and the decoded credentials are: the password compared is
  one piece of \<open>decoded.split(":")\<close>, and no piece contains a colon.
\<close>

theorem middleware_colon_password_rejects:
  "58 \<in> set p \<Longrightarrow> middleware base64_utf8 USER (Some p) auth = unauthorized"
proof -
  assume colon: "58 \<in> set p"
  have "elem_at (split 58 d) 1 \<noteq> Some p" for d
  proof
    assume "elem_at (split 58 d) 1 = Some p"
    then have "p \<in> set (split 58 d)" by (rule elem_at_in_set)
    then have "58 \<notin> set p" by (rule split_no_sep)
    with colon show False by simp
  qed
  then show ?thesis
    by (simp add: middleware_def Let_def)
qed

text \<open>
  The witness: user \<open>user\<close>, password \<open>a:b\<close>, and a request whose credentials
  decode to exactly \<open>user:a:b\<close>.
\<close>

theorem middleware_colon_password_rejects_witness:
  "58 \<in> set (a ''a:b'') \<and>
   middleware (\<lambda>e. a ''user:a:b'') (Some (a ''user'')) (Some (a ''a:b''))
     (Some (a ''Basic dXNlcjphOmI='')) = unauthorized"
  using middleware_colon_password_rejects
    [of "a ''a:b''" "\<lambda>e. a ''user:a:b''" "Some (a ''user'')" "Some (a ''Basic dXNlcjphOmI='')"]
  by (simp add: a_def)

end
